theory Spec2Isabelle
  imports Main "HOL-Library.Sublist" "HOL-Library.Log_Nat"
begin

section \<open>Python strings\<close>

text \<open>
  A Python \<^verbatim>\<open>str\<close> is a sequence of code points. The model works on \<^typ>\<open>string\<close>, where a
  \<^typ>\<open>char\<close> \<open>c\<close> stands for the code point \<open>of_char c\<close>, so the input texts of the model are
  the strings whose code points are below 256 (ASCII and Latin-1, which covers Portuguese).
  On that range the three character classes the program depends on are:
  \<^item> whitespace (\<^verbatim>\<open>str.strip()\<close>, \<^verbatim>\<open>str.split()\<close> and the regex class \<^verbatim>\<open>\s\<close> all use
    \<^verbatim>\<open>str.isspace\<close>): code points 9 to 13, 28 to 32, 133 and 160;
  \<^item> decimal digits (the regex class \<^verbatim>\<open>\d\<close>): code points 48 to 57 only;
  \<^item> \<^verbatim>\<open>str.lower()\<close>: \<open>A\<close> to \<open>Z\<close> and the Latin-1 capitals 192 to 222 (but 215, the
    multiplication sign) move up by 32, every other code point stays.
\<close>

definition py_isspace :: "char \<Rightarrow> bool" where
  "py_isspace c =
     (let n = (of_char c :: nat)
      in (9 \<le> n \<and> n \<le> 13) \<or> (28 \<le> n \<and> n \<le> 32) \<or> n = 133 \<or> n = 160)"

definition py_isdigit :: "char \<Rightarrow> bool" where
  "py_isdigit c = (let n = (of_char c :: nat) in 48 \<le> n \<and> n \<le> 57)"

definition py_lower_char :: "char \<Rightarrow> char" where
  "py_lower_char c =
     (let n = (of_char c :: nat)
      in if (65 \<le> n \<and> n \<le> 90) \<or> (192 \<le> n \<and> n \<le> 222 \<and> n \<noteq> 215)
         then char_of (n + 32) else c)"

definition py_lower :: "string \<Rightarrow> string" where
  "py_lower s = map py_lower_char s"

text \<open>\<^verbatim>\<open>s.strip()\<close>: drop the leading and the trailing whitespace.\<close>

definition py_strip :: "string \<Rightarrow> string" where
  "py_strip s = rev (dropWhile py_isspace (rev (dropWhile py_isspace s)))"

text \<open>
  \<^verbatim>\<open>s.replace(old, new)\<close>: scan from the left; at each position where \<open>old\<close> starts, emit
  \<open>new\<close> and continue after the occurrence, so occurrences are replaced without overlap and
  the output is not scanned again. With an empty \<open>old\<close> Python puts \<open>new\<close> before every
  element and at the end.
\<close>

function py_replace_from :: "'a list \<Rightarrow> 'a list \<Rightarrow> 'a list \<Rightarrow> 'a list" where
  "py_replace_from old new [] = []"
| "py_replace_from old new (c # cs) =
     (if old \<noteq> [] \<and> prefix old (c # cs)
      then new @ py_replace_from old new (drop (length old) (c # cs))
      else c # py_replace_from old new cs)"
  by pat_completeness auto
termination
  by (relation "measure (\<lambda>(old, new, s). length s)") auto

definition py_replace :: "'a list \<Rightarrow> 'a list \<Rightarrow> 'a list \<Rightarrow> 'a list" where
  "py_replace old new s =
     (if old = [] then new @ concat (map (\<lambda>c. c # new) s) else py_replace_from old new s)"

text \<open>
  \<^verbatim>\<open>re.sub(r"\s+", " ", s)\<close>: every maximal run of whitespace becomes one space.
\<close>

function re_sub_spaces :: "string \<Rightarrow> string" where
  "re_sub_spaces [] = []"
| "re_sub_spaces (c # cs) =
     (if py_isspace c then CHR '' '' # re_sub_spaces (dropWhile py_isspace cs)
      else c # re_sub_spaces cs)"
  by pat_completeness auto
termination
  by (relation "measure length") (auto simp: length_dropWhile_le less_Suc_eq_le)

text \<open>
  \<^verbatim>\<open>s.split()\<close> with no argument: the maximal runs of non-whitespace, in order; never an
  empty token.
\<close>

function py_split :: "string \<Rightarrow> string list" where
  "py_split s =
     (case dropWhile py_isspace s of
        [] \<Rightarrow> []
      | c # cs \<Rightarrow> takeWhile (\<lambda>x. \<not> py_isspace x) (c # cs)
                 # py_split (dropWhile (\<lambda>x. \<not> py_isspace x) cs))"
  by pat_completeness auto
termination
proof (relation "measure length", goal_cases)
  case 1
  show ?case by simp
next
  case (2 s c cs)
  have "length (dropWhile (\<lambda>x. \<not> py_isspace x) cs) \<le> length cs"
    by (rule length_dropWhile_le)
  moreover have "length (c # cs) \<le> length s"
    using length_dropWhile_le [of py_isspace s] 2 by simp
  ultimately show ?case by simp
qed

declare py_split.simps [simp del]

text \<open>\<^verbatim>\<open>sep.join(parts)\<close>.\<close>

fun py_join :: "string \<Rightarrow> string list \<Rightarrow> string" where
  "py_join sep [] = []"
| "py_join sep [p] = p"
| "py_join sep (p # q # ps) = p @ sep @ py_join sep (q # ps)"

section \<open>Python floats\<close>

text \<open>
  A Python \<^verbatim>\<open>float\<close> is an IEEE 754 double: a rational of the form \<open>m * 2 ^ e\<close>, or an
  infinity, or not-a-number. The model keeps the exact rational value of a finite double.
\<close>

datatype pyfloat = Finite rat | PosInf | NegInf | NaN

definition pow2 :: "int \<Rightarrow> rat" where
  "pow2 k = (if 0 \<le> k then 2 ^ nat k else 1 / 2 ^ nat (- k))"

definition round_half_even :: "rat \<Rightarrow> int" where
  "round_half_even x =
     (let f = \<lfloor>x\<rfloor>; d = x - of_int f
      in if d < 1 / 2 then f
         else if 1 / 2 < d then f + 1
         else if even f then f else f + 1)"

text \<open>
  The exponent of the binade of a positive rational, \<open>2 ^ k \<le> x < 2 ^ (k + 1)\<close>, from the
  bit length of its integer part (of the integer part of its inverse below 1).
\<close>

definition binade :: "rat \<Rightarrow> int" where
  "binade x =
     (if 1 \<le> x then bitlen \<lfloor>x\<rfloor> - 1 else - bitlen (\<lceil>1 / x\<rceil> - 1))"

text \<open>
  The double nearest to a non-negative rational, ties to the even significand (53 bits;
  the spacing of doubles never goes below \<open>2 ^ - 1074\<close>); a result of \<open>2 ^ 1024\<close> or more
  is the infinity. This is what \<^verbatim>\<open>float(s)\<close> returns for a decimal numeral \<open>s\<close>: Python's
  conversion is correctly rounded.
\<close>

definition nearest_double :: "rat \<Rightarrow> pyfloat" where
  "nearest_double x =
     (if x \<le> 0 then Finite 0
      else let u = pow2 (max (binade x - 52) (- 1074));
               y = of_int (round_half_even (x / u)) * u
           in if 2 ^ 1024 \<le> y then PosInf else Finite y)"

definition digit_value :: "char \<Rightarrow> nat" where
  "digit_value c = of_char c - 48"

definition nat_of_digits :: "string \<Rightarrow> nat" where
  "nat_of_digits s = foldl (\<lambda>n c. 10 * n + digit_value c) 0 s"

text \<open>
  \<^verbatim>\<open>float(s)\<close> on a string made of decimal digits and dots: digits with at most one dot and
  at least one digit are a numeral, anything else over that alphabet raises ValueError
  (\<open>None\<close>). The program calls \<^verbatim>\<open>float\<close> only on such strings; signs, exponents, blanks
  and the names \<^verbatim>\<open>inf\<close> and \<^verbatim>\<open>nan\<close>, which \<^verbatim>\<open>float\<close> also reads, are outside this
  model.
\<close>

definition py_float :: "string \<Rightarrow> pyfloat option" where
  "py_float s =
     (let ip = takeWhile py_isdigit s; r = dropWhile py_isdigit s
      in case r of
           [] \<Rightarrow> if ip = [] then None else Some (nearest_double (of_nat (nat_of_digits ip)))
         | c # fp \<Rightarrow>
             if c = CHR ''.'' \<and> list_all py_isdigit fp \<and> (ip \<noteq> [] \<or> fp \<noteq> [])
             then Some (nearest_double
                          (of_nat (nat_of_digits (ip @ fp)) / 10 ^ length fp))
             else None)"

text \<open>
  The decimal numeral of a natural number, and \<^verbatim>\<open>f"{value:.2f}"\<close>: a finite double is
  rounded to the nearest multiple of 1/100, ties to even, on its exact value, and written
  with its sign, its integer digits, a dot and two digits; the other floats are written
  \<^verbatim>\<open>inf\<close>, \<^verbatim>\<open>-inf\<close> and \<^verbatim>\<open>nan\<close>.
\<close>

function digits_of_nat :: "nat \<Rightarrow> string" where
  "digits_of_nat n =
     (if n < 10 then [char_of (48 + n)]
      else digits_of_nat (n div 10) @ [char_of (48 + n mod 10)])"
  by pat_completeness auto
termination
  by (relation "measure id") auto

declare digits_of_nat.simps [simp del]

definition format_2f :: "pyfloat \<Rightarrow> string" where
  "format_2f v =
     (case v of
        Finite x \<Rightarrow>
          (let c = nat (round_half_even (\<bar>x\<bar> * 100))
           in (if x < 0 then ''-'' else []) @ digits_of_nat (c div 100) @ ''.''
              @ [char_of (48 + c mod 100 div 10), char_of (48 + c mod 10)])
      | PosInf \<Rightarrow> ''inf''
      | NegInf \<Rightarrow> ''-inf''
      | NaN \<Rightarrow> ''nan'')"

section \<open>The expense parser\<close>

text \<open>
  \<^verbatim>\<open>re.search(r"(\d+(?:[.,]\d{1,2})?)", t)\<close>, as the span \<open>(m.start(), m.end())\<close> of the match.
  The search tries the start positions from the left, and a match can only start at a
  digit, so it starts at the first digit of \<open>t\<close>. There \<^verbatim>\<open>\d+\<close> is greedy and takes the
  whole run of digits (nothing after it in the pattern is mandatory, so it never gives a
  digit back); the optional group then matches when a dot or a comma and a digit follow,
  and its greedy \<^verbatim>\<open>\d{1,2}\<close> takes a second digit when there is one.
\<close>

definition re_search_number :: "string \<Rightarrow> (nat \<times> nat) option" where
  "re_search_number t =
     (let pre = takeWhile (\<lambda>c. \<not> py_isdigit c) t;
          r = dropWhile (\<lambda>c. \<not> py_isdigit c) t
      in if r = [] then None
         else
           let ds = takeWhile py_isdigit r;
               after = dropWhile py_isdigit r;
               grp = (case after of
                        sep # d1 # others \<Rightarrow>
                          if (sep = CHR ''.'' \<or> sep = CHR '','') \<and> py_isdigit d1
                          then (case others of
                                  [] \<Rightarrow> 2
                                | d2 # _ \<Rightarrow> if py_isdigit d2 then 3 else 2)
                          else 0
                      | _ \<Rightarrow> 0)
           in Some (length pre, length pre + length ds + grp))"

text \<open>
  \<^verbatim>\<open>parse_expense(text)\<close>, statement by statement. \<open>None\<close> is Python's \<^verbatim>\<open>None\<close>; the
  triple is \<open>(value, descricao, conta)\<close>. \<open>m.group(1)\<close> is the slice of \<open>t\<close> between the
  ends of the span; \<open>parts[-1]\<close> and \<open>parts[:-1]\<close> are read only when there are two parts
  or more.
\<close>

definition parse_expense :: "string \<Rightarrow> (pyfloat \<times> string \<times> string) option" where
  "parse_expense text =
     (let t = py_strip (py_lower text);
          t = py_strip (py_replace ''reais'' [] (py_replace ''r$'' [] t))
      in case re_search_number t of
           None \<Rightarrow> None
         | Some (m_start, m_end) \<Rightarrow>
             (let group1 = take (m_end - m_start) (drop m_start t);
                  raw_val = py_replace '','' ''.'' (py_replace ''.'' [] group1)
              in (case py_float raw_val of
                    None \<Rightarrow> None
                  | Some value \<Rightarrow>
                      (let rest = py_strip (take m_start t @ drop m_end t);
                           rest = py_strip (re_sub_spaces rest);
                           parts = py_split rest
                       in if 2 \<le> length parts
                          then Some (value, py_join '' '' (butlast parts), last parts)
                          else if length parts = 1
                          then Some (value, hd parts, [])
                          else Some (value, [], [])))))"

section \<open>JSON values and the Python operations on them\<close>

text \<open>
  What \<^verbatim>\<open>request.get_json\<close> and \<^verbatim>\<open>requests.Response.json\<close> return. A dictionary is the
  list of its items (its keys distinct, looked up with \<open>map_of\<close>). Numbers are the
  integers: Telegram's identifiers are, and the handler only passes numbers on.
\<close>

datatype json =
    JNull
  | JBool bool
  | JInt int
  | JStr string
  | JList "json list"
  | JDict "(string \<times> json) list"

text \<open>The exceptions that leave the handler (Flask answers them with status 500).\<close>

datatype exn = AttributeError | KeyError | TypeError | IOFailure

text \<open>Truthiness, as \<^verbatim>\<open>not x\<close>, \<^verbatim>\<open>x or y\<close> and \<^verbatim>\<open>if x\<close> read it.\<close>

fun py_truthy :: "json \<Rightarrow> bool" where
  "py_truthy JNull = False"
| "py_truthy (JBool b) = b"
| "py_truthy (JInt n) = (n \<noteq> 0)"
| "py_truthy (JStr s) = (s \<noteq> [])"
| "py_truthy (JList xs) = (xs \<noteq> [])"
| "py_truthy (JDict kvs) = (kvs \<noteq> [])"

text \<open>
  \<^verbatim>\<open>x.get(key, default)\<close>: only a dictionary has the method; on anything else the
  attribute lookup raises AttributeError. \<^verbatim>\<open>x.get(key)\<close> has the default \<^verbatim>\<open>None\<close>.
\<close>

fun py_get_default :: "json \<Rightarrow> string \<Rightarrow> json \<Rightarrow> exn + json" where
  "py_get_default (JDict kvs) key dflt =
     (case map_of kvs key of None \<Rightarrow> Inr dflt | Some v \<Rightarrow> Inr v)"
| "py_get_default _ key dflt = Inl AttributeError"

definition py_get :: "json \<Rightarrow> string \<Rightarrow> exn + json" where
  "py_get x key = py_get_default x key JNull"

text \<open>
  \<^verbatim>\<open>x[key]\<close> with a string key: a dictionary without the key raises KeyError, a value that is
  not a dictionary raises TypeError (a list or a string wants an integer index, the others
  are not subscriptable).
\<close>

fun py_index :: "json \<Rightarrow> string \<Rightarrow> exn + json" where
  "py_index (JDict kvs) key =
     (case map_of kvs key of None \<Rightarrow> Inl KeyError | Some v \<Rightarrow> Inr v)"
| "py_index _ key = Inl TypeError"

text \<open>
  \<^verbatim>\<open>(x.get(key) or "").strip()\<close>, which reads the message's text and the transcription's:
  a falsy value gives the empty string, a string is trimmed, and any other truthy value
  has no \<^verbatim>\<open>strip\<close>.
\<close>

definition get_stripped :: "json \<Rightarrow> string \<Rightarrow> exn + string" where
  "get_stripped x key =
     (case py_get x key of
        Inl err \<Rightarrow> Inl err
      | Inr v \<Rightarrow>
          if py_truthy v
          then (case v of JStr s \<Rightarrow> Inr (py_strip s) | _ \<Rightarrow> Inl AttributeError)
          else Inr [])"

section \<open>The world of the handler\<close>

text \<open>
  Texts sent to Telegram hold code points beyond 255 (the emoji of the replies), so a reply
  is a list of code points; \<open>ustr\<close> reads a string as one.
\<close>

type_synonym ustring = "nat list"

definition ustr :: "string \<Rightarrow> ustring" where
  "ustr s = map of_char s"

text \<open>The JSON payload of \<^verbatim>\<open>sendMessage\<close> (\<open>msg_text\<close> is its key \<^verbatim>\<open>text\<close>);
  \<open>reply_to_message_id\<close> is \<open>None\<close> when the key is absent.\<close>

record payload =
  chat_id :: json
  msg_text :: ustring
  parse_mode :: string
  reply_to_message_id :: "json option"

text \<open>
  The state the handler changes: the rows of the worksheet, in order, and the messages
  posted to Telegram, in order.
\<close>

record world =
  ledger :: "string list list"
  outbox :: "payload list"

record datetime =
  year :: nat
  month :: nat
  day :: nat
  hour :: nat
  minute :: nat
  second :: nat

text \<open>
  What the handler reads from outside, as functions of what it sends:
  \<^item> \<open>now\<close>: the reading of \<^verbatim>\<open>datetime.now(timezone.utc)\<close>;
  \<^item> \<open>append_fails\<close>, \<open>post_fails\<close>: whether \<^verbatim>\<open>ws.append_row\<close> and \<^verbatim>\<open>requests.post\<close> raise
    (no status is checked after the post, so only a transport failure raises);
  \<^item> \<open>get_file\<close>: the decoded answer of Telegram's \<^verbatim>\<open>getFile\<close> for a file id, or the exception
    of the request;
  \<^item> \<open>download\<close>: the content behind the file path (the request, \<^verbatim>\<open>raise_for_status\<close> and the
    temporary file), or the exception;
  \<^item> \<open>whisper\<close>: the result dictionary of \<^verbatim>\<open>model.transcribe\<close> for a content, or the exception.
\<close>

record env =
  now :: datetime
  append_fails :: "string list \<Rightarrow> bool"
  post_fails :: "payload \<Rightarrow> bool"
  get_file :: "json \<Rightarrow> exn + json"
  download :: "json \<Rightarrow> exn + string"
  whisper :: "string \<Rightarrow> exn + json"

text \<open>
  \<^verbatim>\<open>now.strftime("%Y-%m-%d %H:%M:%S UTC")\<close>. \<^verbatim>\<open>%Y\<close> is the year in decimal (four digits for
  every reading of a present-day clock); the other fields are zero-filled to two digits.
\<close>

definition two_digits :: "nat \<Rightarrow> string" where
  "two_digits n = [char_of (48 + n div 10 mod 10), char_of (48 + n mod 10)]"

definition strftime :: "datetime \<Rightarrow> string" where
  "strftime d =
     digits_of_nat (year d) @ ''-'' @ two_digits (month d) @ ''-'' @ two_digits (day d)
     @ '' '' @ two_digits (hour d) @ '':'' @ two_digits (minute d) @ '':''
     @ two_digits (second d) @ '' UTC''"

text \<open>\<^verbatim>\<open>add_row(value, desc, conta, original)\<close>.\<close>

definition add_row ::
  "env \<Rightarrow> pyfloat \<Rightarrow> string \<Rightarrow> string \<Rightarrow> string \<Rightarrow> world \<Rightarrow> (exn + unit) \<times> world" where
  "add_row e value desc conta original w =
     (let datahora = strftime (now e);
          row = [datahora, format_2f value, desc, conta, original]
      in if append_fails e row then (Inl IOFailure, w)
         else (Inr (), w\<lparr>ledger := ledger w @ [row]\<rparr>))"

text \<open>
  \<^verbatim>\<open>send_message(chat_id, text, reply_to)\<close>: the payload, with the key
  \<^verbatim>\<open>reply_to_message_id\<close> only for a truthy \<open>reply_to\<close>, and the post.
\<close>

definition reply_payload :: "json \<Rightarrow> ustring \<Rightarrow> json \<Rightarrow> payload" where
  "reply_payload cid txt reply_to =
     \<lparr>chat_id = cid, msg_text = txt, parse_mode = ''Markdown'',
      reply_to_message_id = (if py_truthy reply_to then Some reply_to else None)\<rparr>"

definition send_message :: "env \<Rightarrow> json \<Rightarrow> ustring \<Rightarrow> json \<Rightarrow> world \<Rightarrow> (exn + unit) \<times> world" where
  "send_message e cid txt reply_to w =
     (let p = reply_payload cid txt reply_to
      in if post_fails e p then (Inl IOFailure, w)
         else (Inr (), w\<lparr>outbox := outbox w @ [p]\<rparr>))"

text \<open>\<^verbatim>\<open>transcribe_ogg_to_text\<close>, on the content of the temporary file.\<close>

definition transcribe_ogg_to_text :: "env \<Rightarrow> string \<Rightarrow> exn + string" where
  "transcribe_ogg_to_text e content =
     (case whisper e content of
        Inl err \<Rightarrow> Inl err
      | Inr result \<Rightarrow> get_stripped result ''text'')"

section \<open>The replies\<close>

text \<open>
  The texts of the six replies, code point by code point: 227 is a with tilde, 231 c with
  cedilla, 225 a with acute, 237 i with acute, 10 the newline, 9989 the check mark and
  128533, 128517 the two faces. The two replies that report a record are built by an
  f-string and then have every dot replaced by a comma, over the whole text.
\<close>

definition reply_not_understood :: ustring where
  "reply_not_understood = ustr ''N'' @ [227] @ ustr ''o entendi. Exemplo: `500 padaria nubank`''"

definition reply_recorded :: "pyfloat \<Rightarrow> string \<Rightarrow> string \<Rightarrow> ustring" where
  "reply_recorded value desc conta =
     py_replace (ustr ''.'') (ustr '','')
       (ustr ''Lan'' @ [231] @ ustr ''ado '' @ [9989] @ ustr '' R$ '' @ ustr (format_2f value)
        @ ustr '' | '' @ ustr desc @ ustr '' | '' @ ustr conta)"

definition reply_no_audio :: ustring where
  "reply_no_audio =
     ustr ''N'' @ [227] @ ustr ''o consegui pegar o '' @ [225] @ ustr ''udio '' @ [128533]"

definition reply_empty_transcription :: ustring where
  "reply_empty_transcription =
     ustr ''Transcrevi vazio '' @ [128517]
     @ ustr '' Tenta falar um pouco mais alto e sem muito ru'' @ [237] @ ustr ''do.''"

definition transcription_line :: "string \<Rightarrow> ustring" where
  "transcription_line txt =
     ustr ''Transcri'' @ [231, 227] @ ustr ''o: `'' @ ustr txt @ ustr ''`'' @ [10]"

definition reply_transcribed_not_understood :: "string \<Rightarrow> ustring" where
  "reply_transcribed_not_understood txt =
     transcription_line txt @ ustr ''N'' @ [227]
     @ ustr ''o entendi o formato. Exemplo: `500 padaria nubank`''"

definition reply_transcribed_recorded :: "string \<Rightarrow> pyfloat \<Rightarrow> string \<Rightarrow> string \<Rightarrow> ustring" where
  "reply_transcribed_recorded txt value desc conta =
     py_replace (ustr ''.'') (ustr '','')
       (transcription_line txt @ ustr ''Lan'' @ [231] @ ustr ''ado '' @ [9989] @ ustr '' R$ ''
        @ ustr (format_2f value) @ ustr '' | '' @ ustr desc @ ustr '' | '' @ ustr conta)"

section \<open>The webhook\<close>

text \<open>\<^verbatim>\<open>jsonify({"ok": True})\<close>: status 200 and the body.\<close>

type_synonym response = "nat \<times> json"

definition ack :: response where
  "ack = (200, JDict [(''ok'', JBool True)])"

text \<open>\<^verbatim>\<open>update.get("message") or update.get("edited_message")\<close>.\<close>

definition get_message :: "json \<Rightarrow> exn + json" where
  "get_message update =
     (case py_get update ''message'' of
        Inl err \<Rightarrow> Inl err
      | Inr m \<Rightarrow> if py_truthy m then Inr m else py_get update ''edited_message'')"

text \<open>\<^verbatim>\<open>message.get("chat", {}).get("id")\<close>.\<close>

definition get_chat_id :: "json \<Rightarrow> exn + json" where
  "get_chat_id message =
     (case py_get_default message ''chat'' (JDict []) of
        Inl err \<Rightarrow> Inl err
      | Inr chat \<Rightarrow> py_get chat ''id'')"

text \<open>
  The \<^verbatim>\<open>if "voice" in message: ... elif "audio" in message: ...\<close> statement, \<open>file_id\<close>
  starting as \<^verbatim>\<open>None\<close>. It runs after \<^verbatim>\<open>message.get\<close> has succeeded, so the message is a
  dictionary; the last equation is never reached.
\<close>

fun get_file_id :: "json \<Rightarrow> exn + json" where
  "get_file_id (JDict kvs) =
     (case map_of kvs ''voice'' of
        Some voice \<Rightarrow> py_get voice ''file_id''
      | None \<Rightarrow>
          (case map_of kvs ''audio'' of
             Some audio \<Rightarrow> py_get audio ''file_id''
           | None \<Rightarrow> Inr JNull))"
| "get_file_id _ = Inl TypeError"

text \<open>
  The part of \<^verbatim>\<open>webhook\<close> before its first effect reads the update and takes one of three
  ways: no message; no file id, with the trimmed text (empty when there is none); a file
  id. \<^verbatim>\<open>request.get_json(force=True, silent=True)\<close> is \<open>None\<close> for a body that is not JSON.
\<close>

datatype update_kind =
    NoMessage
  | TextMessage json json string
  | AudioMessage json json json

definition classify :: "json option \<Rightarrow> exn + update_kind" where
  "classify body =
     (let update = (case body of
                      None \<Rightarrow> JDict []
                    | Some j \<Rightarrow> if py_truthy j then j else JDict [])
      in case get_message update of
           Inl err \<Rightarrow> Inl err
         | Inr message \<Rightarrow>
             if \<not> py_truthy message then Inr NoMessage
             else
               (case get_chat_id message of
                  Inl err \<Rightarrow> Inl err
                | Inr cid \<Rightarrow>
                    (case py_get message ''message_id'' of
                       Inl err \<Rightarrow> Inl err
                     | Inr msg_id \<Rightarrow>
                         (case get_file_id message of
                            Inl err \<Rightarrow> Inl err
                          | Inr file_id \<Rightarrow>
                              if \<not> py_truthy file_id
                              then (case get_stripped message ''text'' of
                                      Inl err \<Rightarrow> Inl err
                                    | Inr txt \<Rightarrow> Inr (TextMessage cid msg_id txt))
                              else Inr (AudioMessage cid msg_id file_id)))))"

text \<open>An effect followed by \<^verbatim>\<open>return jsonify({"ok": True})\<close>.\<close>

definition then_ack :: "(exn + unit) \<times> world \<Rightarrow> (exn + response) \<times> world" where
  "then_ack r = (case r of (Inl err, w) \<Rightarrow> (Inl err, w) | (Inr u, w) \<Rightarrow> (Inr ack, w))"

text \<open>The branch \<^verbatim>\<open>if not file_id:\<close>, from \<^verbatim>\<open>if text:\<close> on.\<close>

definition webhook_text :: "env \<Rightarrow> json \<Rightarrow> json \<Rightarrow> string \<Rightarrow> world \<Rightarrow> (exn + response) \<times> world" where
  "webhook_text e cid msg_id txt w =
     (if txt = [] then (Inr ack, w)
      else
        (case parse_expense txt of
           None \<Rightarrow> then_ack (send_message e cid reply_not_understood msg_id w)
         | Some (value, desc, conta) \<Rightarrow>
             (case add_row e value desc conta txt w of
                (Inl err, w') \<Rightarrow> (Inl err, w')
              | (Inr u, w') \<Rightarrow>
                  then_ack (send_message e cid (reply_recorded value desc conta) msg_id w'))))"

text \<open>
  Steps 1 to 3 of the branch for a message with a file id, which change nothing in the
  world: ask Telegram for the file, download it, transcribe it. \<open>Inr None\<close> is the case
  \<^verbatim>\<open>not file_info.get("ok")\<close>, \<open>Inr (Some txt)\<close> a transcription.
\<close>

definition fetch_transcript :: "env \<Rightarrow> json \<Rightarrow> exn + string option" where
  "fetch_transcript e file_id =
     (case get_file e file_id of
        Inl err \<Rightarrow> Inl err
      | Inr file_info \<Rightarrow>
          (case py_get file_info ''ok'' of
             Inl err \<Rightarrow> Inl err
           | Inr ok \<Rightarrow>
               if \<not> py_truthy ok then Inr None
               else
                 (case py_index file_info ''result'' of
                    Inl err \<Rightarrow> Inl err
                  | Inr res \<Rightarrow>
                      (case py_index res ''file_path'' of
                         Inl err \<Rightarrow> Inl err
                       | Inr file_path \<Rightarrow>
                           (case download e file_path of
                              Inl err \<Rightarrow> Inl err
                            | Inr content \<Rightarrow>
                                (case transcribe_ogg_to_text e content of
                                   Inl err \<Rightarrow> Inl err
                                 | Inr txt \<Rightarrow> Inr (Some txt)))))))"

text \<open>The rest of \<^verbatim>\<open>webhook\<close>, for a message with a file id.\<close>

definition webhook_audio :: "env \<Rightarrow> json \<Rightarrow> json \<Rightarrow> json \<Rightarrow> world \<Rightarrow> (exn + response) \<times> world" where
  "webhook_audio e cid msg_id file_id w =
     (case fetch_transcript e file_id of
        Inl err \<Rightarrow> (Inl err, w)
      | Inr None \<Rightarrow> then_ack (send_message e cid reply_no_audio msg_id w)
      | Inr (Some txt) \<Rightarrow>
          if txt = []
          then then_ack (send_message e cid reply_empty_transcription msg_id w)
          else
            (case parse_expense txt of
               None \<Rightarrow>
                 then_ack
                   (send_message e cid (reply_transcribed_not_understood txt) msg_id w)
             | Some (value, desc, conta) \<Rightarrow>
                 (case add_row e value desc conta txt w of
                    (Inl err, w') \<Rightarrow> (Inl err, w')
                  | (Inr u, w') \<Rightarrow>
                      then_ack
                        (send_message e cid (reply_transcribed_recorded txt value desc conta)
                           msg_id w'))))"

text \<open>
  \<^verbatim>\<open>webhook()\<close>: the answer to the caller, or the exception that leaves the handler, and the
  world after it.
\<close>

definition webhook :: "env \<Rightarrow> json option \<Rightarrow> world \<Rightarrow> (exn + response) \<times> world" where
  "webhook e body w =
     (case classify body of
        Inl err \<Rightarrow> (Inl err, w)
      | Inr NoMessage \<Rightarrow> (Inr ack, w)
      | Inr (TextMessage cid msg_id txt) \<Rightarrow> webhook_text e cid msg_id txt w
      | Inr (AudioMessage cid msg_id file_id) \<Rightarrow> webhook_audio e cid msg_id file_id w)"

section \<open>What the specification says about the parser\<close>

text \<open>
  The definitions of this section follow the specification's words, not the code; the
  theorems below compare them with \<open>parse_expense\<close>.

  The text the number is searched in, as the first two statements of \<^verbatim>\<open>parse_expense\<close>
  compute it.
\<close>

definition normalise :: "string \<Rightarrow> string" where
  "normalise text =
     py_strip (py_replace ''reais'' [] (py_replace ''r$'' [] (py_strip (py_lower text))))"

text \<open>
  The decimal-number pattern: one or more digits, optionally followed by a single separator
  (dot or comma) and one or two digits.
\<close>

definition number_pat :: "string \<Rightarrow> bool" where
  "number_pat m =
     (let ds = takeWhile py_isdigit m; opt = dropWhile py_isdigit m
      in ds \<noteq> [] \<and>
         (case opt of
            [] \<Rightarrow> True
          | sep # fs \<Rightarrow> (sep = CHR ''.'' \<or> sep = CHR '','') \<and>
                        (length fs = 1 \<or> length fs = 2) \<and> list_all py_isdigit fs))"

text \<open>Some substring (contiguous) of the text matches the pattern.\<close>

definition contains_number :: "string \<Rightarrow> bool" where
  "contains_number t = list_ex number_pat (sublists t)"

text \<open>
  \<open>t = pre @ m @ post\<close> cuts \<open>t\<close> at its first numeric substring: \<open>m\<close> matches the
  pattern, no match starts further left, and no match starting at the same place is longer.
\<close>

definition first_number :: "string \<Rightarrow> string \<Rightarrow> string \<Rightarrow> string \<Rightarrow> bool" where
  "first_number t pre m post =
     (t = pre @ m @ post \<and> number_pat m \<and>
      (\<forall>pre' m' post'. t = pre' @ m' @ post' \<and> number_pat m' \<longrightarrow>
         length pre < length pre' \<or> (length pre = length pre' \<and> length m' \<le> length m)))"

text \<open>
  The value of a matched numeral under the Brazilian convention: dots are thousands
  separators and are dropped, the comma is the decimal separator.
\<close>

definition br_value :: "string \<Rightarrow> rat" where
  "br_value m =
     (let m' = filter (\<lambda>c. c \<noteq> CHR ''.'') m;
          ip = takeWhile (\<lambda>c. c \<noteq> CHR '','') m';
          fp = drop 1 (dropWhile (\<lambda>c. c \<noteq> CHR '','') m')
      in of_nat (nat_of_digits ip) + of_nat (nat_of_digits fp) / 10 ^ length fp)"

text \<open>
  The normalisation as the specification orders it: lower-case, remove every occurrence of
  \<^verbatim>\<open>r$\<close> and of \<^verbatim>\<open>reais\<close> (from the left, without overlap), trim.
\<close>

fun remove_all :: "string \<Rightarrow> string \<Rightarrow> string" where
  "remove_all w [] = []"
| "remove_all w (c # cs) =
     (if w \<noteq> [] \<and> prefix w (c # cs)
      then remove_all w (drop (length w - 1) cs)
      else c # remove_all w cs)"

definition normalise_spec :: "string \<Rightarrow> string" where
  "normalise_spec text = py_strip (remove_all ''reais'' (remove_all ''r$'' (py_lower text)))"

text \<open>
  What the specification returns once the text is normalised: the first number's value and
  the tokens of what is left, the last one as the account.
\<close>

definition split_tokens :: "rat \<Rightarrow> string list \<Rightarrow> pyfloat \<times> string \<times> string" where
  "split_tokens x toks =
     (case toks of
        [] \<Rightarrow> (nearest_double x, [], [])
      | [d] \<Rightarrow> (nearest_double x, d, [])
      | _ \<Rightarrow> (nearest_double x, py_join '' '' (butlast toks), last toks))"

section \<open>What the specification says about the handler\<close>

text \<open>A decimal numeral with exactly two decimal places, possibly signed.\<close>

definition two_decimal_places :: "string \<Rightarrow> bool" where
  "two_decimal_places s =
     (let body = (case s of [] \<Rightarrow> [] | c # r \<Rightarrow> if c = CHR ''-'' then r else s);
          ip = takeWhile py_isdigit body; rest = dropWhile py_isdigit body
      in ip \<noteq> [] \<and>
         (case rest of
            [] \<Rightarrow> False
          | c # fs \<Rightarrow> c = CHR ''.'' \<and> length fs = 2 \<and> list_all py_isdigit fs))"

text \<open>
  A text has the shape of a mask when it has a digit wherever the mask has the letter d and
  the mask's own character everywhere else; the timestamp's mask is that of
  \<^verbatim>\<open>YYYY-MM-DD HH:MM:SS UTC\<close>.
\<close>

fun matches_mask :: "string \<Rightarrow> string \<Rightarrow> bool" where
  "matches_mask [] [] = True"
| "matches_mask (m # ms) (c # cs) =
     ((if m = CHR ''d'' then py_isdigit c else c = m) \<and> matches_mask ms cs)"
| "matches_mask _ _ = False"

definition timestamp_format :: "string \<Rightarrow> bool" where
  "timestamp_format s = matches_mask ''dddd-dd-dd dd:dd:dd UTC'' s"

text \<open>The readings a clock gives: a four-digit year and fields within their ranges.\<close>

definition valid_datetime :: "datetime \<Rightarrow> bool" where
  "valid_datetime d =
     (1000 \<le> year d \<and> year d \<le> 9999 \<and> 1 \<le> month d \<and> month d \<le> 12 \<and>
      1 \<le> day d \<and> day d \<le> 31 \<and> hour d < 24 \<and> minute d < 60 \<and> second d < 60)"

text \<open>The usage example every "not understood" reply ends with.\<close>

definition usage_example :: ustring where
  "usage_example = ustr ''Exemplo: `500 padaria nubank`''"

text \<open>
  A message carries a voice or audio attachment with a file id: its \<^verbatim>\<open>voice\<close> entry or
  its \<^verbatim>\<open>audio\<close> entry is a dictionary with a truthy \<^verbatim>\<open>file_id\<close>.
\<close>

definition has_file_id :: "json \<Rightarrow> bool" where
  "has_file_id x = (case py_get x ''file_id'' of Inl err \<Rightarrow> False | Inr v \<Rightarrow> py_truthy v)"

definition carries_attachment :: "json \<Rightarrow> bool" where
  "carries_attachment message =
     (case message of
        JDict kvs \<Rightarrow>
          (case map_of kvs ''voice'' of None \<Rightarrow> False | Some v \<Rightarrow> has_file_id v) \<or>
          (case map_of kvs ''audio'' of None \<Rightarrow> False | Some a \<Rightarrow> has_file_id a)
      | _ \<Rightarrow> False)"

text \<open>
  No call to the outside raises: the sheet takes every row, Telegram takes every post, and
  for every file id the three steps of the audio branch come back.
\<close>

definition no_io_failure :: "env \<Rightarrow> bool" where
  "no_io_failure e =
     ((\<forall>row. \<not> append_fails e row) \<and> (\<forall>p. \<not> post_fails e p) \<and>
      (\<forall>file_id. \<exists>r. fetch_transcript e file_id = Inr r))"

text \<open>
  An update as Telegram sends it: nothing, or a JSON object whose message (or edited
  message), when it has one, is an object whose \<^verbatim>\<open>chat\<close> entry and whose \<^verbatim>\<open>voice\<close> entry
  (or, without one, whose \<^verbatim>\<open>audio\<close> entry) are objects and whose \<^verbatim>\<open>text\<close> is a string.
\<close>

definition is_dict :: "json \<Rightarrow> bool" where
  "is_dict j = (case j of JDict kvs \<Rightarrow> True | _ \<Rightarrow> False)"




text \<open>
  The rows a run of the handler appended, without their timestamps: what it recorded.
\<close>

definition recorded :: "world \<Rightarrow> world \<Rightarrow> string list list" where
  "recorded w w' = map tl (drop (length (ledger w)) (ledger w'))"

section \<open>Sample inputs\<close>

text \<open>
  An environment in which nothing fails: the clock reads 2024-05-17 13:45:09, Telegram
  knows every file, and the transcription of every recording is the given text.
\<close>

definition calm_env :: "string \<Rightarrow> env" where
  "calm_env transcript =
     \<lparr>now = \<lparr>year = 2024, month = 5, day = 17, hour = 13, minute = 45, second = 9\<rparr>,
      append_fails = (\<lambda>row. False),
      post_fails = (\<lambda>p. False),
      get_file = (\<lambda>file_id.
        Inr (JDict [(''ok'', JBool True),
                    (''result'', JDict [(''file_path'', JStr ''voice/file_1.oga'')])])),
      download = (\<lambda>file_path. Inr ''OggS''),
      whisper = (\<lambda>content. Inr (JDict [(''text'', JStr transcript)]))\<rparr>"

definition empty_world :: world where
  "empty_world = \<lparr>ledger = [], outbox = []\<rparr>"

text \<open>A text message, and a message with more fields, from chat 42 with message id 7.\<close>

definition message_update :: "(string \<times> json) list \<Rightarrow> json" where
  "message_update extra =
     JDict [(''update_id'', JInt 1),
            (''message'',
               JDict ([(''message_id'', JInt 7), (''chat'', JDict [(''id'', JInt 42)])]
                      @ extra))]"

definition text_update :: "string \<Rightarrow> json" where
  "text_update txt = message_update [(''text'', JStr txt)]"

text \<open>An amount beyond the range of the floats: 1 followed by 309 zeros.\<close>

definition huge_amount :: string where
  "huge_amount = CHR ''1'' # replicate 309 CHR ''0''"

section \<open>Lemmas about the parser\<close>

subsection \<open>Whitespace, trimming and splitting\<close>

lemma py_strip_decomp:
  "\<exists>ws1 ws2. s = ws1 @ py_strip s @ ws2 \<and> list_all py_isspace ws1 \<and> list_all py_isspace ws2"
proof -
  let ?a = "takeWhile py_isspace s"
  let ?r = "dropWhile py_isspace s"
  let ?b = "rev (takeWhile py_isspace (rev ?r))"
  have "rev ?r = takeWhile py_isspace (rev ?r) @ dropWhile py_isspace (rev ?r)"
    by simp
  then have "?r = py_strip s @ ?b"
    unfolding py_strip_def by (metis rev_append rev_rev_ident)
  then have "s = ?a @ py_strip s @ ?b"
    by (metis takeWhile_dropWhile_id)
  moreover have "list_all py_isspace ?a"
    by (simp add: list_all_iff) (meson set_takeWhileD)
  moreover have "list_all py_isspace ?b"
    by (simp add: list_all_iff) (meson set_takeWhileD)
  ultimately show ?thesis by blast
qed

lemma dropWhile_all: "list_all P xs \<Longrightarrow> dropWhile P (xs @ ys) = dropWhile P ys"
  by (induction xs) auto

lemma py_strip_pad:
  assumes "list_all py_isspace ws1" "list_all py_isspace ws2"
  shows "py_strip (ws1 @ s @ ws2) = py_strip s"
proof -
  have a: "dropWhile py_isspace (ws1 @ s @ ws2) = dropWhile py_isspace (s @ ws2)"
    using assms(1) by (rule dropWhile_all)
  have b: "dropWhile py_isspace (rev (dropWhile py_isspace (s @ ws2)))
         = dropWhile py_isspace (rev (dropWhile py_isspace s))"
  proof (cases "list_all py_isspace s")
    case True
    then have "list_all py_isspace (s @ ws2)" using assms(2) by simp
    then have e1: "dropWhile py_isspace (s @ ws2) = []"
      by (simp add: list_all_iff)
    have e2: "dropWhile py_isspace s = []"
      using True by (simp add: list_all_iff)
    show ?thesis unfolding e1 e2 ..
  next
    case False
    then have "dropWhile py_isspace (s @ ws2) = dropWhile py_isspace s @ ws2"
      by (simp add: dropWhile_append1 list_all_iff) (metis dropWhile_append1)
    moreover have "list_all py_isspace (rev ws2)" using assms(2) by (simp add: list_all_iff)
    ultimately show ?thesis by (simp add: dropWhile_all)
  qed
  show ?thesis unfolding py_strip_def a b ..
qed

lemma py_split_dropWhile: "py_split (dropWhile py_isspace s) = py_split s"
  by (subst (1 2) py_split.simps) simp

lemma py_split_Nil [simp]: "py_split [] = []"
  by (subst py_split.simps) simp

lemma py_split_spaces: "list_all py_isspace ws \<Longrightarrow> py_split (ws @ s) = py_split s"
  by (metis dropWhile_all py_split_dropWhile)

lemma py_split_word:
  assumes "w \<noteq> []" "list_all (\<lambda>c. \<not> py_isspace c) w" "x = [] \<or> py_isspace (hd x)"
  shows "py_split (w @ x) = w # py_split x"
proof -
  obtain c cs where w: "w = c # cs" using assms(1) by (cases w) auto
  have c: "\<not> py_isspace c" and cs: "list_all (\<lambda>c. \<not> py_isspace c) cs"
    using assms(2) w by auto
  have t: "takeWhile (\<lambda>c. \<not> py_isspace c) (cs @ x) = cs"
    using cs assms(3) by (induction cs) (auto simp: takeWhile_eq_Nil_iff neq_Nil_conv)
  have d: "dropWhile (\<lambda>c. \<not> py_isspace c) (cs @ x) = x"
    using cs assms(3) by (induction cs) (auto simp: dropWhile_eq_self_iff neq_Nil_conv)
  show ?thesis
    by (subst py_split.simps) (simp add: w c t d)
qed

lemma py_split_trailing:
  "list_all py_isspace ws \<Longrightarrow> py_split (s @ ws) = py_split s"
proof (induction "length s" arbitrary: s rule: less_induct)
  case less
  show ?case
  proof (cases "dropWhile py_isspace s")
    case Nil
    then have "list_all py_isspace (s @ ws)"
      using less.prems by (auto simp: list_all_iff dropWhile_eq_Nil_conv)
    then have "py_split ((s @ ws) @ []) = py_split []" by (rule py_split_spaces)
    moreover have "py_split (s @ []) = py_split []"
      by (rule py_split_spaces) (use Nil in \<open>auto simp: list_all_iff dropWhile_eq_Nil_conv\<close>)
    ultimately show ?thesis by simp
  next
    case (Cons c cs)
    define a where "a = takeWhile py_isspace s"
    define w where "w = takeWhile (\<lambda>c. \<not> py_isspace c) (c # cs)"
    define r where "r = dropWhile (\<lambda>c. \<not> py_isspace c) (c # cs)"
    have s: "s = a @ w @ r"
      unfolding a_def w_def r_def by (metis Cons takeWhile_dropWhile_id)
    have a: "list_all py_isspace a"
      unfolding a_def by (simp add: list_all_iff) (meson set_takeWhileD)
    have c: "\<not> py_isspace c"
      by (metis Cons hd_dropWhile list.discI list.sel(1))
    have w: "w \<noteq> []" "list_all (\<lambda>c. \<not> py_isspace c) w"
      unfolding w_def using c by (auto simp: list_all_iff dest: set_takeWhileD)
    have r: "r = [] \<or> py_isspace (hd r)"
      unfolding r_def by (metis (mono_tags, lifting) hd_dropWhile)
    have r': "r @ ws = [] \<or> py_isspace (hd (r @ ws))"
    proof (cases "r = []")
      case True
      then show ?thesis using less.prems by (cases ws) simp_all
    next
      case False
      then show ?thesis using r by simp
    qed
    have len: "length r < length s"
      using w(1) by (simp add: s)
    have "py_split (s @ ws) = py_split (a @ (w @ (r @ ws)))"
      by (simp add: s)
    also have "\<dots> = py_split (w @ (r @ ws))"
      by (rule py_split_spaces [OF a])
    also have "\<dots> = w # py_split (r @ ws)"
      by (rule py_split_word [OF w r'])
    also have "\<dots> = w # py_split r"
      using less.hyps [OF len less.prems] by simp
    also have "\<dots> = py_split (w @ r)"
      by (rule py_split_word [OF w r, symmetric])
    also have "\<dots> = py_split (a @ (w @ r))"
      by (rule py_split_spaces [OF a, symmetric])
    also have "\<dots> = py_split s"
      using s by simp
    finally show ?thesis .
  qed
qed

lemma py_split_strip: "py_split (py_strip s) = py_split s"
proof -
  obtain ws1 ws2 where s: "s = ws1 @ py_strip s @ ws2"
    and ws: "list_all py_isspace ws1" "list_all py_isspace ws2"
    using py_strip_decomp by blast
  have "py_split s = py_split (ws1 @ py_strip s @ ws2)" using s by simp
  also have "\<dots> = py_split (py_strip s @ ws2)" by (rule py_split_spaces [OF ws(1)])
  also have "\<dots> = py_split (py_strip s)" by (rule py_split_trailing [OF ws(2)])
  finally show ?thesis by simp
qed

lemma re_sub_spaces_word:
  "list_all (\<lambda>c. \<not> py_isspace c) w \<Longrightarrow> re_sub_spaces (w @ x) = w @ re_sub_spaces x"
  by (induction w) auto

lemma re_sub_spaces_head:
  "x = [] \<or> py_isspace (hd x) \<Longrightarrow> re_sub_spaces x = [] \<or> py_isspace (hd (re_sub_spaces x))"
  by (cases x) (auto simp: py_isspace_def)

lemma py_split_re_sub_spaces: "py_split (re_sub_spaces s) = py_split s"
proof (induction "length s" arbitrary: s rule: less_induct)
  case less
  show ?case
  proof (cases s)
    case Nil
    then show ?thesis by simp
  next
    case (Cons c cs)
    show ?thesis
    proof (cases "py_isspace c")
      case True
      have len: "length (dropWhile py_isspace cs) < length s"
        using Cons length_dropWhile_le [of py_isspace cs] by simp
      have sp: "list_all py_isspace [CHR '' '']" by (simp add: py_isspace_def)
      have "py_split (re_sub_spaces s)
          = py_split ([CHR '' ''] @ re_sub_spaces (dropWhile py_isspace cs))"
        using Cons True by simp
      also have "\<dots> = py_split (re_sub_spaces (dropWhile py_isspace cs))"
        by (rule py_split_spaces [OF sp])
      also have "\<dots> = py_split (dropWhile py_isspace cs)"
        by (rule less.hyps [OF len])
      also have "\<dots> = py_split (dropWhile py_isspace s)"
        using Cons True by simp
      also have "\<dots> = py_split s" by (rule py_split_dropWhile)
      finally show ?thesis .
    next
      case False
      define w where "w = takeWhile (\<lambda>c. \<not> py_isspace c) s"
      define r where "r = dropWhile (\<lambda>c. \<not> py_isspace c) s"
      have s: "s = w @ r" unfolding w_def r_def by simp
      have w: "w \<noteq> []" "list_all (\<lambda>c. \<not> py_isspace c) w"
        unfolding w_def using Cons False by (auto simp: list_all_iff dest: set_takeWhileD)
      have r: "r = [] \<or> py_isspace (hd r)"
        unfolding r_def by (metis (mono_tags, lifting) hd_dropWhile)
      have len: "length r < length s" using w(1) by (simp add: s)
      have "py_split (re_sub_spaces s) = py_split (w @ re_sub_spaces r)"
        by (simp add: s re_sub_spaces_word [OF w(2)])
      also have "\<dots> = w # py_split (re_sub_spaces r)"
        by (rule py_split_word [OF w re_sub_spaces_head [OF r]])
      also have "\<dots> = w # py_split r"
        using less.hyps [OF len] by simp
      also have "\<dots> = py_split (w @ r)"
        by (rule py_split_word [OF w r, symmetric])
      finally show ?thesis using s by simp
    qed
  qed
qed

lemma py_split_cleanup:
  "py_split (py_strip (re_sub_spaces (py_strip s))) = py_split s"
  by (simp add: py_split_strip py_split_re_sub_spaces)

subsection \<open>Replacing single characters\<close>

lemma py_replace_delete_char: "py_replace [a] [] s = filter (\<lambda>c. c \<noteq> a) s"
  unfolding py_replace_def by (induction s) auto

lemma py_replace_map_char: "py_replace [a] [b] s = map (\<lambda>c. if c = a then b else c) s"
  unfolding py_replace_def by (induction s) auto

subsection \<open>Digits\<close>

lemma foldl_digits_shift:
  "foldl (\<lambda>n c. 10 * n + digit_value c) a ys
     = a * 10 ^ length ys + foldl (\<lambda>n c. 10 * n + digit_value c) 0 ys"
proof (induction ys rule: rev_induct)
  case Nil
  show ?case by simp
next
  case (snoc y ys)
  define f where "f = foldl (\<lambda>n c. 10 * n + digit_value c)"
  have ih: "f a ys = a * 10 ^ length ys + f 0 ys"
    unfolding f_def by (rule snoc)
  have "f a (ys @ [y]) = 10 * f a ys + digit_value y"
    unfolding f_def by simp
  also have "\<dots> = a * 10 ^ length (ys @ [y]) + (10 * f 0 ys + digit_value y)"
    unfolding ih by (simp add: add_mult_distrib2)
  also have "10 * f 0 ys + digit_value y = f 0 (ys @ [y])"
    unfolding f_def by simp
  finally show ?case unfolding f_def .
qed

lemma nat_of_digits_append:
  "nat_of_digits (xs @ ys) = nat_of_digits xs * 10 ^ length ys + nat_of_digits ys"
  unfolding nat_of_digits_def foldl_append by (rule foldl_digits_shift)

lemma digit_not_sep: "py_isdigit c \<Longrightarrow> c \<noteq> CHR ''.'' \<and> c \<noteq> CHR '',''"
  by (auto simp: py_isdigit_def)

lemma digits_filter_dot: "list_all py_isdigit ds \<Longrightarrow> filter (\<lambda>c. c \<noteq> CHR ''.'') ds = ds"
  by (induction ds) (auto dest: digit_not_sep)

lemma digits_map_comma:
  "list_all py_isdigit ds \<Longrightarrow> map (\<lambda>c. if c = CHR '','' then CHR ''.'' else c) ds = ds"
  by (induction ds) (auto dest: digit_not_sep)

lemma digits_takeWhile_comma:
  "list_all py_isdigit ds \<Longrightarrow> takeWhile (\<lambda>c. c \<noteq> CHR '','') (ds @ x) = ds @ takeWhile (\<lambda>c. c \<noteq> CHR '','') x"
  by (induction ds) (auto dest: digit_not_sep)

lemma digits_dropWhile_comma:
  "list_all py_isdigit ds \<Longrightarrow> dropWhile (\<lambda>c. c \<noteq> CHR '','') (ds @ x) = dropWhile (\<lambda>c. c \<noteq> CHR '','') x"
  by (induction ds) (auto dest: digit_not_sep)

lemma digits_takeWhile: "list_all py_isdigit ds \<Longrightarrow> takeWhile py_isdigit ds = ds"
  by (induction ds) auto

lemma digits_dropWhile: "list_all py_isdigit ds \<Longrightarrow> dropWhile py_isdigit ds = []"
  by (induction ds) auto

subsection \<open>The number pattern\<close>

lemma takeWhile_digits_stop:
  assumes "list_all py_isdigit ds" "x = [] \<or> \<not> py_isdigit (hd x)"
  shows "takeWhile py_isdigit (ds @ x) = ds" "dropWhile py_isdigit (ds @ x) = x"
  using assms by (induction ds) (auto simp: takeWhile_eq_Nil_iff dropWhile_eq_self_iff neq_Nil_conv)

lemma number_pat_cases:
  assumes "number_pat m"
  obtains (plain) "m \<noteq> []" "list_all py_isdigit m"
  | (frac) ds sep fs where "m = ds @ sep # fs" "ds \<noteq> []" "list_all py_isdigit ds"
      "sep = CHR ''.'' \<or> sep = CHR '',''" "length fs = 1 \<or> length fs = 2"
      "list_all py_isdigit fs"
proof (cases "dropWhile py_isdigit m")
  case Nil
  then have "list_all py_isdigit m" by (simp add: list_all_iff)
  moreover have "m \<noteq> []" using assms by (auto simp: number_pat_def Let_def)
  ultimately show ?thesis by (rule plain [rotated])
next
  case (Cons sep fs)
  have m: "m = takeWhile py_isdigit m @ sep # fs"
    by (metis Cons takeWhile_dropWhile_id)
  have "list_all py_isdigit (takeWhile py_isdigit m)"
    by (simp add: list_all_iff) (meson set_takeWhileD)
  then show ?thesis
    using assms Cons m by (intro frac [of "takeWhile py_isdigit m" sep fs])
      (auto simp: number_pat_def Let_def)
qed

lemma number_pat_plain: "ds \<noteq> [] \<Longrightarrow> list_all py_isdigit ds \<Longrightarrow> number_pat ds"
  by (simp add: number_pat_def Let_def digits_takeWhile digits_dropWhile)

lemma number_pat_frac:
  assumes "ds \<noteq> []" "list_all py_isdigit ds" "sep = CHR ''.'' \<or> sep = CHR '',''"
    "length fs = 1 \<or> length fs = 2" "list_all py_isdigit fs"
  shows "number_pat (ds @ sep # fs)"
proof -
  have "\<not> py_isdigit sep" using assms(3) by (auto simp: py_isdigit_def)
  then have "takeWhile py_isdigit (ds @ sep # fs) = ds"
    "dropWhile py_isdigit (ds @ sep # fs) = sep # fs"
    using takeWhile_digits_stop [OF assms(2), of "sep # fs"] by simp_all
  then show ?thesis using assms by (simp add: number_pat_def Let_def)
qed

lemma number_pat_hd: "number_pat m \<Longrightarrow> m \<noteq> [] \<and> py_isdigit (hd m)"
  by (erule number_pat_cases) (auto simp: neq_Nil_conv)

subsection \<open>The float of a match\<close>

lemma py_float_digits:
  assumes "ds \<noteq> []" "list_all py_isdigit ds"
  shows "py_float ds = Some (nearest_double (of_nat (nat_of_digits ds)))"
  using assms by (simp add: py_float_def Let_def digits_takeWhile digits_dropWhile)

lemma py_float_point:
  assumes "ds \<noteq> []" "list_all py_isdigit ds" "list_all py_isdigit fs"
  shows "py_float (ds @ CHR ''.'' # fs)
       = Some (nearest_double (of_nat (nat_of_digits (ds @ fs)) / 10 ^ length fs))"
proof -
  have "\<not> py_isdigit CHR ''.''" by (simp add: py_isdigit_def)
  then have "takeWhile py_isdigit (ds @ CHR ''.'' # fs) = ds"
    "dropWhile py_isdigit (ds @ CHR ''.'' # fs) = CHR ''.'' # fs"
    using takeWhile_digits_stop [OF assms(2), of "CHR ''.'' # fs"] by simp_all
  then show ?thesis using assms by (simp add: py_float_def Let_def)
qed

lemma digits_no_comma:
  assumes "list_all py_isdigit ds"
  shows "takeWhile (\<lambda>c. c \<noteq> CHR '','') ds = ds" "dropWhile (\<lambda>c. c \<noteq> CHR '','') ds = []"
  using assms by (induction ds) (auto dest: digit_not_sep)

lemma br_value_no_comma:
  assumes "list_all py_isdigit ds" "filter (\<lambda>c. c \<noteq> CHR ''.'') m = ds"
  shows "br_value m = of_nat (nat_of_digits ds)"
  unfolding br_value_def Let_def assms(2) digits_no_comma [OF assms(1)]
  by (simp add: nat_of_digits_def)

lemma py_float_match:
  assumes "number_pat m"
  shows "py_float (py_replace '','' ''.'' (py_replace ''.'' [] m))
       = Some (nearest_double (br_value m))"
  using assms
proof (cases rule: number_pat_cases)
  case plain
  have "br_value m = of_nat (nat_of_digits m)"
    by (rule br_value_no_comma [OF plain(2) digits_filter_dot [OF plain(2)]])
  then show ?thesis
    using plain
    by (simp add: py_replace_delete_char py_replace_map_char digits_filter_dot digits_map_comma
        py_float_digits)
next
  case (frac ds sep fs)
  from frac(4) show ?thesis
  proof
    assume sep: "sep = CHR ''.''"
    have all: "list_all py_isdigit (ds @ fs)" using frac by simp
    have clean: "py_replace '','' ''.'' (py_replace ''.'' [] m) = ds @ fs"
      using frac sep
      by (simp add: py_replace_delete_char py_replace_map_char digits_filter_dot digits_map_comma)
    have "filter (\<lambda>c. c \<noteq> CHR ''.'') m = ds @ fs"
      using frac sep by (simp add: digits_filter_dot)
    then have "br_value m = of_nat (nat_of_digits (ds @ fs))"
      by (rule br_value_no_comma [OF all])
    then show ?thesis
      using frac clean py_float_digits [of "ds @ fs"] by simp
  next
    assume sep: "sep = CHR '',''"
    have clean: "py_replace '','' ''.'' (py_replace ''.'' [] m) = ds @ CHR ''.'' # fs"
      using frac sep
      by (simp add: py_replace_delete_char py_replace_map_char digits_filter_dot digits_map_comma)
    have "filter (\<lambda>c. c \<noteq> CHR ''.'') m = m"
      using frac sep by (simp add: digits_filter_dot)
    then have "br_value m
        = of_nat (nat_of_digits ds) + of_nat (nat_of_digits fs) / 10 ^ length fs"
      using digits_takeWhile_comma [OF frac(3), of "sep # fs"]
        digits_dropWhile_comma [OF frac(3), of "sep # fs"] frac(1) sep
      by (simp add: br_value_def Let_def)
    also have "\<dots> = of_nat (nat_of_digits (ds @ fs)) / 10 ^ length fs"
      by (simp add: nat_of_digits_append add_divide_distrib)
    finally show ?thesis
      using frac clean py_float_point [of ds fs] by simp
  qed
qed

subsection \<open>The regular-expression search\<close>

lemma contains_number_iff:
  "contains_number t \<longleftrightarrow> (\<exists>pre m post. t = pre @ m @ post \<and> number_pat m)"
proof -
  have "contains_number t \<longleftrightarrow> (\<exists>m. sublist m t \<and> number_pat m)"
    by (auto simp: contains_number_def list_ex_iff)
  also have "\<dots> \<longleftrightarrow> (\<exists>pre m post. t = pre @ m @ post \<and> number_pat m)"
    unfolding sublist_def by blast
  finally show ?thesis .
qed

lemma contains_number_digit: "contains_number t \<longleftrightarrow> (\<exists>c\<in>set t. py_isdigit c)"
proof
  assume "contains_number t"
  then obtain pre m post where t: "t = pre @ m @ post" and m: "number_pat m"
    unfolding contains_number_iff by blast
  from number_pat_hd [OF m] have "hd m \<in> set t" "py_isdigit (hd m)"
    using t by auto
  then show "\<exists>c\<in>set t. py_isdigit c" by blast
next
  assume "\<exists>c\<in>set t. py_isdigit c"
  then obtain c where c: "c \<in> set t" "py_isdigit c" by blast
  then obtain pre post where "t = pre @ [c] @ post"
    by (auto simp: in_set_conv_decomp)
  moreover have "number_pat [c]" using c(2) by (simp add: number_pat_plain)
  ultimately show "contains_number t" unfolding contains_number_iff by blast
qed

lemma re_search_number_None: "re_search_number t = None \<longleftrightarrow> \<not> contains_number t"
  unfolding contains_number_digit
  by (auto simp: re_search_number_def Let_def dropWhile_eq_Nil_conv)

lemma first_number_unique:
  assumes "first_number t pre m post" "first_number t pre' m' post'"
  shows "pre' = pre \<and> m' = m \<and> post' = post"
proof -
  have t: "t = pre @ m @ post" "t = pre' @ m' @ post'"
    and pat: "number_pat m" "number_pat m'"
    using assms by (auto simp: first_number_def)
  have a: "length pre < length pre' \<or> (length pre = length pre' \<and> length m' \<le> length m)"
    using assms(1) t(2) pat(2) unfolding first_number_def by blast
  have b: "length pre' < length pre \<or> (length pre' = length pre \<and> length m \<le> length m')"
    using assms(2) t(1) pat(1) unfolding first_number_def by blast
  from a b have len: "length pre = length pre'" "length m = length m'" by auto
  from t len(1) have "pre = pre'" "m @ post = m' @ post'" by auto
  with len(2) show ?thesis by auto
qed

lemma re_search_number_span:
  assumes "re_search_number t = Some (s, e)"
  shows "first_number t (take s t) (take (e - s) (drop s t)) (drop e t) \<and> s < e \<and> e \<le> length t"
proof -
  define pre where "pre = takeWhile (\<lambda>c. \<not> py_isdigit c) t"
  define r where "r = dropWhile (\<lambda>c. \<not> py_isdigit c) t"
  define ds where "ds = takeWhile py_isdigit r"
  define after where "after = dropWhile py_isdigit r"
  define g :: nat where "g = (case after of
       sep # d1 # others \<Rightarrow>
         if (sep = CHR ''.'' \<or> sep = CHR '','') \<and> py_isdigit d1
         then (case others of [] \<Rightarrow> 2 | d2 # _ \<Rightarrow> if py_isdigit d2 then 3 else 2)
         else 0
     | _ \<Rightarrow> 0)"
  have r: "r \<noteq> []" and s: "s = length pre" and e: "e = length pre + length ds + g"
    using assms
    by (auto simp: re_search_number_def Let_def pre_def r_def ds_def after_def g_def
        split: if_splits)
  have t: "t = pre @ ds @ after"
    unfolding pre_def ds_def after_def r_def by simp
  have pre: "list_all (\<lambda>c. \<not> py_isdigit c) pre"
    unfolding pre_def by (auto simp: list_all_iff dest: set_takeWhileD)
  have hd_r: "py_isdigit (hd r)"
    using r hd_dropWhile [of "\<lambda>c. \<not> py_isdigit c" t] unfolding r_def by auto
  have ds: "ds \<noteq> []" "list_all py_isdigit ds"
    unfolding ds_def using r hd_r
    by (auto simp: takeWhile_eq_Nil_iff list_all_iff dest: set_takeWhileD)
  have after: "after = [] \<or> \<not> py_isdigit (hd after)"
    unfolding after_def by (metis hd_dropWhile)
  have g_le: "g \<le> length after"
    unfolding g_def by (auto split: list.splits)
  have g_shape: "g = 0 \<or>
      (\<exists>sep fs. take g after = sep # fs \<and> (sep = CHR ''.'' \<or> sep = CHR '','') \<and>
         (length fs = 1 \<or> length fs = 2) \<and> list_all py_isdigit fs)"
    unfolding g_def by (auto split: list.splits)
  have g_max: "Suc (length fs) \<le> g"
    if "after = sep # fs @ rest" "sep = CHR ''.'' \<or> sep = CHR '',''"
      "length fs = 1 \<or> length fs = 2" "list_all py_isdigit fs" for sep fs rest
  proof -
    from that(3) show ?thesis
    proof
      assume "length fs = 1"
      then obtain d1 where "fs = [d1]" by (cases fs) auto
      then show ?thesis using that unfolding g_def by (auto split: list.splits)
    next
      assume "length fs = 2"
      then obtain d1 d2 where "fs = [d1, d2]"
        by (cases fs; cases "tl fs") auto
      then show ?thesis using that unfolding g_def by (auto split: list.splits)
    qed
  qed
  define m where "m = ds @ take g after"
  have take_s: "take s t = pre" and drop_s: "drop s t = ds @ after"
    using s t by simp_all
  have m_eq: "take (e - s) (drop s t) = m"
    unfolding drop_s m_def using e s by simp
  have post_eq: "drop e t = drop g after"
    using e t by simp
  have cut: "t = pre @ m @ drop g after"
    unfolding m_def using t by simp
  have pat: "number_pat m"
    using g_shape
  proof
    assume "g = 0"
    then show ?thesis unfolding m_def using ds by (simp add: number_pat_plain)
  next
    assume "\<exists>sep fs. take g after = sep # fs \<and> (sep = CHR ''.'' \<or> sep = CHR '','') \<and>
         (length fs = 1 \<or> length fs = 2) \<and> list_all py_isdigit fs"
    then obtain sep fs where "take g after = sep # fs" "sep = CHR ''.'' \<or> sep = CHR '',''"
      "length fs = 1 \<or> length fs = 2" "list_all py_isdigit fs" by blast
    then show ?thesis unfolding m_def using number_pat_frac [OF ds, of sep fs] by simp
  qed
  have least: "length pre < length pre' \<or> (length pre = length pre' \<and> length m' \<le> length m)"
    if t': "t = pre' @ m' @ post'" and pat': "number_pat m'" for pre' m' post'
  proof -
    from number_pat_hd [OF pat'] obtain c cs where m': "m' = c # cs" and c: "py_isdigit c"
      by (cases m') auto
    have le: "length pre \<le> length pre'"
    proof (rule ccontr)
      assume "\<not> length pre \<le> length pre'"
      then have lt: "length pre' < length pre" by simp
      have "t ! length pre' = c" using t' m' by simp
      moreover have "t ! length pre' = pre ! length pre'"
        using lt t by (simp add: nth_append)
      moreover have "\<not> py_isdigit (pre ! length pre')"
        using pre lt by (simp add: list_all_length)
      ultimately show False using c by simp
    qed
    show ?thesis
    proof (cases "length pre = length pre'")
      case False
      then show ?thesis using le by simp
    next
      case True
      then have same: "pre' = pre" "m' @ post' = ds @ after"
        using t t' by auto
      have "length m' \<le> length m"
        using pat'
      proof (cases rule: number_pat_cases)
        case plain
        have "takeWhile py_isdigit (m' @ post') = m' @ takeWhile py_isdigit post'"
          using plain(2) by (induction m') auto
        moreover have "takeWhile py_isdigit (ds @ after) = ds"
          by (rule takeWhile_digits_stop(1) [OF ds(2) after])
        ultimately have "ds = m' @ takeWhile py_isdigit post'"
          using same(2) by simp
        then have "length m' \<le> length ds" by (metis length_append le_add1)
        then show ?thesis unfolding m_def by simp
      next
        case (frac ds' sep fs)
        have sep: "\<not> py_isdigit sep" using frac(4) by (auto simp: py_isdigit_def)
        have eq: "ds' @ (sep # fs @ post') = ds @ after"
          using same(2) frac(1) by simp
        have "takeWhile py_isdigit (ds' @ (sep # fs @ post')) = ds'"
          "dropWhile py_isdigit (ds' @ (sep # fs @ post')) = sep # fs @ post'"
          using takeWhile_digits_stop [OF frac(3), of "sep # fs @ post'"] sep by simp_all
        moreover have "takeWhile py_isdigit (ds @ after) = ds"
          "dropWhile py_isdigit (ds @ after) = after"
          using takeWhile_digits_stop [OF ds(2) after] by simp_all
        ultimately have "ds' = ds" "after = sep # fs @ post'"
          using eq by simp_all
        then have "length m' \<le> length ds + g"
          using g_max [of sep fs post'] frac by simp
        then show ?thesis unfolding m_def using g_le by simp
      qed
      then show ?thesis using True by simp
    qed
  qed
  have "first_number t (take s t) (take (e - s) (drop s t)) (drop e t)"
    unfolding first_number_def take_s m_eq post_eq
    using cut pat least by blast
  moreover have "s < e" using s e ds(1) by simp
  moreover have "e \<le> length t" using e g_le by (simp add: t)
  ultimately show ?thesis by simp
qed

lemmas re_search_number_first = re_search_number_span [THEN conjunct1]

lemma first_number_search:
  assumes "first_number t pre m post"
  shows "re_search_number t = Some (length pre, length pre + length m)"
proof -
  have "contains_number t"
    using assms unfolding first_number_def contains_number_iff by blast
  then obtain s e where se: "re_search_number t = Some (s, e)"
    using re_search_number_None [of t] by (cases "re_search_number t") auto
  from first_number_unique [OF assms re_search_number_first [OF se]]
  have eq: "take s t = pre" "take (e - s) (drop s t) = m" "drop e t = post" by auto
  have t: "t = pre @ m @ post" using assms by (simp add: first_number_def)
  have s: "s = length pre"
  proof -
    have "length (take s t) = length pre" using eq(1) by simp
    moreover have "m \<noteq> []" using assms number_pat_hd by (auto simp: first_number_def)
    ultimately show ?thesis using t by (auto simp: min_def split: if_splits)
  qed
  have "length (drop e t) = length post" using eq(3) by simp
  moreover have "e \<le> length t"
    using re_search_number_span [OF se] by simp
  ultimately have "e = length pre + length m"
    using t by simp
  with s se show ?thesis by simp
qed

lemma contains_number_first:
  "contains_number t \<longleftrightarrow> (\<exists>pre m post. first_number t pre m post)"
proof
  assume "contains_number t"
  then obtain s e where "re_search_number t = Some (s, e)"
    using re_search_number_None [of t] by (cases "re_search_number t") auto
  from re_search_number_first [OF this] show "\<exists>pre m post. first_number t pre m post"
    by blast
next
  assume "\<exists>pre m post. first_number t pre m post"
  then show "contains_number t"
    unfolding contains_number_iff first_number_def by blast
qed

subsection \<open>The parser in terms of the first number and the tokens\<close>

lemma parse_expense_search:
  "parse_expense text =
     (case re_search_number (normalise text) of
        None \<Rightarrow> None
      | Some (s, e) \<Rightarrow>
          (case py_float (py_replace '','' ''.''
                   (py_replace ''.'' [] (take (e - s) (drop s (normalise text))))) of
             None \<Rightarrow> None
           | Some v \<Rightarrow>
               (let parts = py_split (take s (normalise text) @ drop e (normalise text))
                in if 2 \<le> length parts
                   then Some (v, py_join '' '' (butlast parts), last parts)
                   else if length parts = 1 then Some (v, hd parts, [])
                   else Some (v, [], []))))"
  unfolding parse_expense_def normalise_def Let_def py_split_cleanup
  by (simp split: option.splits prod.splits)

lemma split_tokens_parts:
  "(if 2 \<le> length parts
    then Some (nearest_double x, py_join '' '' (butlast parts), last parts)
    else if length parts = 1 then Some (nearest_double x, hd parts, [])
    else Some (nearest_double x, [], [])) = Some (split_tokens x parts)"
proof (cases parts)
  case Nil
  then show ?thesis by (simp add: split_tokens_def)
next
  case (Cons p ps)
  then show ?thesis by (cases ps) (simp_all add: split_tokens_def)
qed

lemma parse_expense_first:
  assumes "first_number (normalise text) pre m post"
  shows "parse_expense text = Some (split_tokens (br_value m) (py_split (pre @ post)))"
proof -
  have t: "normalise text = pre @ m @ post" and pat: "number_pat m"
    using assms by (auto simp: first_number_def)
  have se: "re_search_number (normalise text) = Some (length pre, length pre + length m)"
    by (rule first_number_search [OF assms])
  have m: "take (length pre + length m - length pre) (drop (length pre) (normalise text)) = m"
    by (simp add: t)
  have rest: "take (length pre) (normalise text)
      @ drop (length pre + length m) (normalise text) = pre @ post"
    by (simp add: t)
  show ?thesis
    unfolding parse_expense_search se option.case prod.case m rest py_float_match [OF pat] Let_def
    by (rule split_tokens_parts)
qed

lemma parse_expense_None: "parse_expense text = None \<longleftrightarrow> \<not> contains_number (normalise text)"
proof (cases "contains_number (normalise text)")
  case True
  then obtain pre m post where "first_number (normalise text) pre m post"
    unfolding contains_number_first by blast
  from parse_expense_first [OF this] True show ?thesis by simp
next
  case False
  then have "re_search_number (normalise text) = None"
    by (simp add: re_search_number_None)
  then show ?thesis using False by (simp add: parse_expense_search)
qed

lemma parse_expense_eval:
  assumes "normalise inp = t" "re_search_number t = Some (s, e)"
    "take (e - s) (drop s t) = m" "br_value m = x" "py_split (take s t @ drop e t) = toks"
  shows "parse_expense inp = Some (split_tokens x toks)"
  using parse_expense_first [of inp "take s t" "take (e - s) (drop s t)" "drop e t"]
    re_search_number_first [OF assms(2)] assms by simp

lemmas br_value_eval = br_value_def nat_of_digits_def digit_value_def

lemma first_number_eval:
  assumes "normalise inp = t" "re_search_number t = Some (s, e)"
    "take s t = pre" "take (e - s) (drop s t) = m" "drop e t = post"
  shows "first_number (normalise inp) pre m post"
  using re_search_number_first [OF assms(2)] assms by simp

subsection \<open>Normalisation\<close>

lemma remove_all_replace: "remove_all w s = py_replace_from w [] s"
proof (induction w s rule: remove_all.induct)
  case (1 w)
  show ?case by simp
next
  case (2 w c cs)
  show ?case
  proof (cases "w \<noteq> [] \<and> prefix w (c # cs)")
    case True
    then have "drop (length w) (c # cs) = drop (length w - 1) cs"
      by (cases w) simp_all
    then show ?thesis using True 2 by simp
  next
    case False
    then show ?thesis using 2 by auto
  qed
qed

lemma py_replace_remove_all: "w \<noteq> [] \<Longrightarrow> py_replace w [] s = remove_all w s"
  by (simp add: py_replace_def remove_all_replace)

lemma prefix_before_spaces:
  assumes "list_all (\<lambda>c. \<not> py_isspace c) w" "list_all py_isspace ws"
  shows "prefix w (a @ ws) \<longleftrightarrow> prefix w a"
proof
  assume "prefix w (a @ ws)"
  then consider "prefix w a" | us where "w = a @ us" "prefix us ws"
    unfolding prefix_append by blast
  then show "prefix w a"
  proof cases
    case 1
    then show ?thesis .
  next
    case 2
    have "us = []"
    proof (rule ccontr)
      assume "us \<noteq> []"
      then obtain u us' where us: "us = u # us'" by (cases us) auto
      then have "\<not> py_isspace u" using assms(1) 2(1) by simp
      moreover have "u \<in> set ws" using 2(2) us by (auto simp: prefix_def)
      ultimately show False using assms(2) by (simp add: list_all_iff)
    qed
    then show ?thesis using 2(1) by simp
  qed
next
  assume "prefix w a"
  then show "prefix w (a @ ws)" by (rule prefix_prefix)
qed

lemma remove_all_leading:
  assumes "list_all (\<lambda>c. \<not> py_isspace c) w" "list_all py_isspace ws"
  shows "remove_all w (ws @ s) = ws @ remove_all w s"
  using assms(2)
proof (induction ws)
  case Nil
  show ?case by simp
next
  case (Cons c ws)
  have "\<not> (w \<noteq> [] \<and> prefix w (c # ws @ s))"
  proof
    assume a: "w \<noteq> [] \<and> prefix w (c # ws @ s)"
    then obtain w' where "w = c # w'" by (cases w) auto
    then show False using assms(1) Cons.prems by simp
  qed
  then have np: "(w \<noteq> [] \<and> prefix w (c # ws @ s)) = False" by simp
  have "remove_all w ((c # ws) @ s) = c # remove_all w (ws @ s)"
    by (simp only: append_Cons remove_all.simps np if_False)
  then show ?case using Cons by simp
qed

lemma remove_all_trailing:
  assumes "list_all (\<lambda>c. \<not> py_isspace c) w" "list_all py_isspace ws"
  shows "remove_all w (s @ ws) = remove_all w s @ ws"
  using assms
proof (induction w s rule: remove_all.induct)
  case (1 w)
  show ?case using remove_all_leading [OF 1, of "[]"] by simp
next
  case (2 w c cs)
  have px: "prefix w ((c # cs) @ ws) \<longleftrightarrow> prefix w (c # cs)"
    by (rule prefix_before_spaces [OF 2(3,4)])
  show ?case
  proof (cases "w \<noteq> [] \<and> prefix w (c # cs)")
    case True
    then have "length w \<le> Suc (length cs)"
      using prefix_length_le by fastforce
    then have "drop (length w - 1) (cs @ ws) = drop (length w - 1) cs @ ws"
      by simp
    then show ?thesis using True px 2(1) [OF True 2(3,4)] by simp
  next
    case False
    then show ?thesis using px 2(2) [OF False 2(3,4)] by auto
  qed
qed

lemma remove_all_padded:
  assumes "list_all (\<lambda>c. \<not> py_isspace c) w"
    "list_all py_isspace ws1" "list_all py_isspace ws2"
  shows "remove_all w (ws1 @ s @ ws2) = ws1 @ remove_all w s @ ws2"
  by (simp add: remove_all_leading [OF assms(1,2)] remove_all_trailing [OF assms(1,3)])

lemma markers_no_space:
  "list_all (\<lambda>c. \<not> py_isspace c) ''r$''" "list_all (\<lambda>c. \<not> py_isspace c) ''reais''"
  by (simp_all add: py_isspace_def)

lemma normalise_spec_eq: "normalise text = normalise_spec text"
proof -
  obtain ws1 ws2 where l: "py_lower text = ws1 @ py_strip (py_lower text) @ ws2"
    and ws: "list_all py_isspace ws1" "list_all py_isspace ws2"
    using py_strip_decomp by blast
  define core where "core = py_strip (py_lower text)"
  have "remove_all ''reais'' (remove_all ''r$'' (py_lower text))
      = remove_all ''reais'' (remove_all ''r$'' (ws1 @ core @ ws2))"
    using l by (simp add: core_def)
  also have "\<dots> = ws1 @ remove_all ''reais'' (remove_all ''r$'' core) @ ws2"
    by (simp only: remove_all_padded [OF markers_no_space(1) ws]
        remove_all_padded [OF markers_no_space(2) ws])
  finally have "normalise_spec text = py_strip (remove_all ''reais'' (remove_all ''r$'' core))"
    unfolding normalise_spec_def by (simp only: py_strip_pad [OF ws])
  moreover have "normalise text = py_strip (remove_all ''reais'' (remove_all ''r$'' core))"
    unfolding normalise_def core_def by (simp add: py_replace_remove_all)
  ultimately show ?thesis by simp
qed

subsection \<open>Normalisation keeps the digits\<close>

lemma isdigit_lower [simp]: "py_isdigit (py_lower_char c) = py_isdigit c"
  by (auto simp: py_lower_char_def py_isdigit_def Let_def)

lemma filter_digit_lower: "filter py_isdigit (py_lower s) = map py_lower_char (filter py_isdigit s)"
  unfolding py_lower_def by (induction s) auto

lemma filter_digit_spaces: "list_all py_isspace ws \<Longrightarrow> filter py_isdigit ws = []"
  by (induction ws) (auto simp: py_isspace_def py_isdigit_def Let_def)

lemma filter_digit_strip: "filter py_isdigit (py_strip s) = filter py_isdigit s"
proof -
  obtain ws1 ws2 where s: "s = ws1 @ py_strip s @ ws2"
    and ws: "list_all py_isspace ws1" "list_all py_isspace ws2"
    using py_strip_decomp by blast
  have "filter py_isdigit s = filter py_isdigit (ws1 @ py_strip s @ ws2)"
    using s by simp
  then show ?thesis by (simp add: filter_digit_spaces [OF ws(1)] filter_digit_spaces [OF ws(2)])
qed

lemma filter_digit_remove_all:
  assumes "filter py_isdigit w = []"
  shows "filter py_isdigit (remove_all w s) = filter py_isdigit s"
  using assms
proof (induction w s rule: remove_all.induct)
  case (1 w)
  show ?case by simp
next
  case (2 w c cs)
  show ?case
  proof (cases "w \<noteq> [] \<and> prefix w (c # cs)")
    case True
    then obtain r where r: "c # cs = w @ r" by (auto simp: prefix_def)
    have "drop (length w - 1) cs = drop (length w) (c # cs)"
      using True by (cases w) simp_all
    also have "\<dots> = r" by (simp add: r)
    finally have d: "drop (length w - 1) cs = r" .
    have "filter py_isdigit (c # cs) = filter py_isdigit r"
      unfolding r using 2(3) by simp
    then show ?thesis using True 2(1) [OF True 2(3)] d by simp
  next
    case False
    then show ?thesis using 2(2) [OF False 2(3)] by auto
  qed
qed

lemma has_digit_filter: "(\<exists>c\<in>set s. py_isdigit c) \<longleftrightarrow> filter py_isdigit s \<noteq> []"
  by (simp add: filter_empty_conv)

lemma contains_number_normalise: "contains_number (normalise inp) \<longleftrightarrow> contains_number inp"
proof -
  have m: "filter py_isdigit ''r$'' = []" "filter py_isdigit ''reais'' = []"
    by (simp_all add: py_isdigit_def)
  have r: "py_replace ''reais'' [] s = remove_all ''reais'' s"
    "py_replace ''r$'' [] s = remove_all ''r$'' s" for s
    by (simp_all add: py_replace_remove_all)
  have "filter py_isdigit (normalise inp) = map py_lower_char (filter py_isdigit inp)"
    unfolding normalise_def
    by (simp only: r filter_digit_strip filter_digit_remove_all [OF m(1)]
        filter_digit_remove_all [OF m(2)] filter_digit_lower)
  then show ?thesis
    unfolding contains_number_digit has_digit_filter by simp
qed

section \<open>Lemmas about floats and formats\<close>

subsection \<open>Floats\<close>

lemma round_half_even_of_int [simp]: "round_half_even (of_int n) = n"
  by (simp add: round_half_even_def)

lemma round_half_even_ge_floor: "\<lfloor>x\<rfloor> \<le> round_half_even x"
  by (simp add: round_half_even_def Let_def)

lemma pow2_nonneg: "0 \<le> k \<Longrightarrow> pow2 k = 2 ^ nat k"
  by (simp add: pow2_def)

lemma pow2_nonpos: "k \<le> 0 \<Longrightarrow> pow2 k = 1 / 2 ^ nat (- k)"
  by (cases "k = 0") (simp_all add: pow2_def)

lemma binade_bounds:
  assumes "1 \<le> x"
  shows "0 \<le> binade x" "2 ^ nat (binade x) \<le> x" "x < 2 ^ nat (binade x + 1)"
proof -
  have pos: "0 < \<lfloor>x\<rfloor>" using assms by linarith
  have k: "binade x = bitlen \<lfloor>x\<rfloor> - 1" using assms by (simp add: binade_def)
  have b: "2 ^ nat (bitlen \<lfloor>x\<rfloor> - 1) \<le> \<lfloor>x\<rfloor>" "\<lfloor>x\<rfloor> < 2 ^ nat (bitlen \<lfloor>x\<rfloor>)"
    using bitlen_bounds [OF pos] by simp_all
  have "0 < bitlen \<lfloor>x\<rfloor>"
    using b(2) pos by (cases "0 < bitlen \<lfloor>x\<rfloor>") auto
  then show "0 \<le> binade x" unfolding k by simp
  have "(of_int (2 ^ nat (bitlen \<lfloor>x\<rfloor> - 1)) :: rat) \<le> of_int \<lfloor>x\<rfloor>"
    using b(1) by (simp only: of_int_le_iff)
  also have "\<dots> \<le> x" by simp
  finally show "2 ^ nat (binade x) \<le> x" unfolding k by simp
  have "\<lfloor>x\<rfloor> + 1 \<le> 2 ^ nat (bitlen \<lfloor>x\<rfloor>)" using b(2) by simp
  then have "(of_int (\<lfloor>x\<rfloor> + 1) :: rat) \<le> of_int (2 ^ nat (bitlen \<lfloor>x\<rfloor>))"
    by (simp only: of_int_le_iff)
  moreover have "x < of_int (\<lfloor>x\<rfloor> + 1)" by linarith
  ultimately have "x < of_int (2 ^ nat (bitlen \<lfloor>x\<rfloor>))" by linarith
  then show "x < 2 ^ nat (binade x + 1)" unfolding k by simp
qed

text \<open>Whole amounts below \<open>2 ^ 53\<close> are doubles: the conversion is exact.\<close>

lemma nearest_double_nat:
  assumes "n < 2 ^ 53"
  shows "nearest_double (of_nat n) = Finite (of_nat n)"
proof (cases "n = 0")
  case True
  then show ?thesis by (simp add: nearest_double_def)
next
  case False
  define x :: rat where "x = of_nat n"
  have x1: "1 \<le> x" using False by (simp add: x_def)
  define k where "k = binade x"
  note kb = binade_bounds [OF x1, folded k_def]
  have "(2::rat) ^ nat k < 2 ^ 53"
  proof -
    have "x < 2 ^ 53" using assms unfolding x_def
      by (metis of_nat_less_iff of_nat_numeral of_nat_power)
    with kb(2) show ?thesis by linarith
  qed
  then have k53: "nat k < 53"
    by (rule power_less_imp_less_exp [of "2::rat", rotated]) simp
  then have k52: "k \<le> 52" by simp
  define j where "j = nat (52 - k)"
  have u: "pow2 (max (k - 52) (- 1074)) = 1 / 2 ^ j"
  proof -
    have "max (k - 52) (- 1074) = k - 52" using kb(1) by simp
    moreover have "pow2 (k - 52) = 1 / 2 ^ nat (- (k - 52))"
      by (rule pow2_nonpos) (use k52 in simp)
    ultimately show ?thesis by (simp add: j_def)
  qed
  have q: "x / (1 / 2 ^ j) = of_int (int n * 2 ^ j)"
    by (simp add: x_def)
  have y: "of_int (round_half_even (x / (1 / 2 ^ j))) * (1 / 2 ^ j) = x"
    unfolding q round_half_even_of_int by (simp add: x_def)
  have small: "\<not> 2 ^ 1024 \<le> x"
  proof -
    have "x < 2 ^ 53" using assms unfolding x_def
      by (metis of_nat_less_iff of_nat_numeral of_nat_power)
    also have "(2::rat) ^ 53 \<le> 2 ^ 1024" by (rule power_increasing) simp_all
    finally show ?thesis by simp
  qed
  have "nearest_double x = Finite x"
    using x1 small unfolding nearest_double_def k_def [symmetric] u Let_def y by simp
  then show ?thesis by (simp add: x_def)
qed

text \<open>From \<open>2 ^ 1024\<close> on the conversion overflows to the infinity.\<close>

lemma nearest_double_overflow:
  assumes "2 ^ 1024 \<le> x"
  shows "nearest_double x = PosInf"
proof -
  have x1: "1 \<le> x"
  proof -
    have "(1::rat) \<le> 2 ^ 1024" by (rule one_le_power) simp
    with assms show ?thesis by linarith
  qed
  define k where "k = binade x"
  note kb = binade_bounds [OF x1, folded k_def]
  have "(2::rat) ^ 1024 < 2 ^ nat (k + 1)" using assms kb(3) by linarith
  then have "1024 < nat (k + 1)"
    by (rule power_less_imp_less_exp [of "2::rat", rotated]) simp
  then have k: "1024 \<le> k" by simp
  define j where "j = nat (k - 52)"
  have u: "pow2 (max (k - 52) (- 1074)) = 2 ^ j"
  proof -
    have "max (k - 52) (- 1074) = k - 52" using k by simp
    moreover have "pow2 (k - 52) = 2 ^ nat (k - 52)"
      by (rule pow2_nonneg) (use k in simp)
    ultimately show ?thesis by (simp add: j_def)
  qed
  have nk: "nat k = 52 + j" using k by (simp add: j_def)
  have "(2::rat) ^ 52 = 2 ^ nat k / 2 ^ j"
    by (simp add: nk power_add)
  also have "\<dots> \<le> x / 2 ^ j"
    using kb(2) by (simp add: divide_right_mono)
  finally have "(of_int (2 ^ 52) :: rat) \<le> x / 2 ^ j" by simp
  then have "2 ^ 52 \<le> \<lfloor>x / 2 ^ j\<rfloor>" by (simp only: le_floor_iff)
  then have "2 ^ 52 \<le> round_half_even (x / 2 ^ j)"
    using round_half_even_ge_floor [of "x / 2 ^ j"] by linarith
  then have "(of_int (2 ^ 52) :: rat) \<le> of_int (round_half_even (x / 2 ^ j))"
    by (simp only: of_int_le_iff)
  then have "(2::rat) ^ 52 * 2 ^ j \<le> of_int (round_half_even (x / 2 ^ j)) * 2 ^ j"
    by (simp add: mult_right_mono)
  moreover have "(2::rat) ^ 1024 \<le> 2 ^ 52 * 2 ^ j"
  proof -
    have "(2::rat) ^ 1024 \<le> 2 ^ nat k" by (rule power_increasing) (use k in simp_all)
    then show ?thesis by (simp add: nk power_add)
  qed
  ultimately have big: "(2::rat) ^ 1024 \<le> of_int (round_half_even (x / 2 ^ j)) * 2 ^ j"
    by (rule order_trans [rotated])
  have "\<not> x \<le> 0" using x1 by simp
  then show ?thesis
    unfolding nearest_double_def k_def [symmetric] u Let_def using big by simp
qed

subsection \<open>Two decimal places\<close>

lemma isdigit_char_of: "k < 10 \<Longrightarrow> py_isdigit (char_of (48 + k :: nat))"
  by (simp add: py_isdigit_def)

lemma digits_of_nat_digits: "digits_of_nat n \<noteq> [] \<and> list_all py_isdigit (digits_of_nat n)"
proof (induction n rule: digits_of_nat.induct)
  case (1 n)
  show ?case
  proof (cases "n < 10")
    case True
    then show ?thesis by (subst (1 2) digits_of_nat.simps) (simp add: isdigit_char_of)
  next
    case False
    then show ?thesis
      using 1 by (subst (1 2) digits_of_nat.simps) (simp add: isdigit_char_of)
  qed
qed

subsection \<open>Formats\<close>

lemma format_2f_two_decimals: "two_decimal_places (format_2f (Finite x))"
proof -
  define c where "c = nat (round_half_even (\<bar>x\<bar> * 100))"
  define ip where "ip = digits_of_nat (c div 100)"
  define fs where "fs = [char_of (48 + c mod 100 div 10), char_of (48 + c mod 10)]"
  have ip: "ip \<noteq> []" "list_all py_isdigit ip"
    unfolding ip_def using digits_of_nat_digits by simp_all
  have fs: "length fs = 2" "list_all py_isdigit fs"
    unfolding fs_def by (simp_all add: isdigit_char_of)
  have dot: "\<not> py_isdigit CHR ''.''" by (simp add: py_isdigit_def)
  have body: "takeWhile py_isdigit (ip @ CHR ''.'' # fs) = ip"
    "dropWhile py_isdigit (ip @ CHR ''.'' # fs) = CHR ''.'' # fs"
    using takeWhile_digits_stop [OF ip(2), of "CHR ''.'' # fs"] dot by simp_all
  have plain: "two_decimal_places (ip @ CHR ''.'' # fs)"
  proof -
    obtain d ds where "ip = d # ds" using ip(1) by (cases ip) auto
    moreover from this have "d \<noteq> CHR ''-''" using ip(2) by (auto simp: py_isdigit_def)
    ultimately show ?thesis
      using body ip fs by (simp add: two_decimal_places_def Let_def)
  qed
  have signed: "two_decimal_places (CHR ''-'' # ip @ CHR ''.'' # fs)"
    using body ip fs by (simp add: two_decimal_places_def Let_def)
  have "format_2f (Finite x) = (if x < 0 then ''-'' else []) @ ip @ CHR ''.'' # fs"
    by (simp add: format_2f_def Let_def c_def ip_def fs_def)
  then show ?thesis using plain signed by simp
qed

lemma not_two_decimals_inf: "\<not> two_decimal_places ''inf''"
  by (simp add: two_decimal_places_def Let_def py_isdigit_def)

lemma digits_of_nat_four:
  assumes "1000 \<le> n" "n \<le> 9999"
  shows "digits_of_nat n = [char_of (48 + n div 1000), char_of (48 + n div 100 mod 10),
           char_of (48 + n div 10 mod 10), char_of (48 + n mod 10)]"
proof -
  have e: "n div 10 div 10 = n div 100" "n div 100 div 10 = n div 1000"
    by (simp_all add: div_mult2_eq [symmetric])
  have a: "digits_of_nat n = digits_of_nat (n div 10) @ [char_of (48 + n mod 10)]"
    using assms by (subst digits_of_nat.simps) simp
  have b: "digits_of_nat (n div 10)
         = digits_of_nat (n div 100) @ [char_of (48 + n div 10 mod 10)]"
    using assms by (subst digits_of_nat.simps) (simp add: e)
  have c: "digits_of_nat (n div 100)
         = digits_of_nat (n div 1000) @ [char_of (48 + n div 100 mod 10)]"
    using assms by (subst digits_of_nat.simps) (simp add: e)
  have d: "digits_of_nat (n div 1000) = [char_of (48 + n div 1000)]"
    using assms by (subst digits_of_nat.simps) simp
  show ?thesis by (simp only: a b c d append.simps)
qed

lemma two_digits_mask:
  "matches_mask (CHR ''d'' # CHR ''d'' # ms) (two_digits n @ cs) = matches_mask ms cs"
  by (simp add: two_digits_def isdigit_char_of)

lemma strftime_format:
  assumes "valid_datetime d"
  shows "timestamp_format (strftime d)"
proof -
  have y: "1000 \<le> year d" "year d \<le> 9999"
    using assms by (simp_all add: valid_datetime_def)
  have y3: "year d div 1000 < 10" using y by simp
  show ?thesis
    unfolding timestamp_format_def strftime_def digits_of_nat_four [OF y]
    using y3 by (simp add: isdigit_char_of two_digits_mask)
qed

subsection \<open>Finite amounts\<close>

lemma round_half_even_le: "of_int (round_half_even z) \<le> z + 1"
proof -
  have "round_half_even z \<le> \<lfloor>z\<rfloor> + 1" by (simp add: round_half_even_def Let_def)
  then have "(of_int (round_half_even z) :: rat) \<le> of_int (\<lfloor>z\<rfloor> + 1)"
    by (simp only: of_int_le_iff)
  also have "\<dots> \<le> z + 1" by simp
  finally show ?thesis .
qed

lemma pow2_pos: "0 < pow2 k"
  by (simp add: pow2_def)

text \<open>An amount below \<open>2 ^ 1023\<close>, so any amount of at most 307 digits, is a finite float.\<close>

lemma nearest_double_finite:
  assumes "x < 2 ^ 1023"
  shows "\<exists>y. nearest_double x = Finite y"
proof (cases "x \<le> 0")
  case True
  then show ?thesis by (simp add: nearest_double_def)
next
  case False
  define u where "u = pow2 (max (binade x - 52) (- 1074))"
  have u0: "0 < u" unfolding u_def by (rule pow2_pos)
  have u_le: "u \<le> max x 1"
  proof (cases "1 \<le> x")
    case True
    note kb = binade_bounds [OF True]
    have "max (binade x - 52) (- 1074) = binade x - 52" using kb(1) by simp
    then have "u = pow2 (binade x - 52)" by (simp add: u_def)
    also have "\<dots> \<le> 2 ^ nat (binade x)"
    proof (cases "0 \<le> binade x - 52")
      case True
      then have "pow2 (binade x - 52) = 2 ^ nat (binade x - 52)" by (rule pow2_nonneg)
      also have "\<dots> \<le> 2 ^ nat (binade x)" by (rule power_increasing) simp_all
      finally show ?thesis .
    next
      case False
      then have "pow2 (binade x - 52) = 1 / 2 ^ nat (- (binade x - 52))"
        by (intro pow2_nonpos) simp
      also have "\<dots> \<le> 1" by simp
      also have "\<dots> \<le> 2 ^ nat (binade x)" by (rule one_le_power) simp
      finally show ?thesis .
    qed
    also have "\<dots> \<le> x" by (rule kb(2))
    finally show ?thesis by simp
  next
    case False
    then have "binade x \<le> 0" by (simp add: binade_def bitlen_nonneg)
    then have "max (binade x - 52) (- 1074) \<le> 0" by simp
    then have "u = 1 / 2 ^ nat (- max (binade x - 52) (- 1074))"
      unfolding u_def by (rule pow2_nonpos)
    also have "\<dots> \<le> 1" by simp
    finally show ?thesis by simp
  qed
  define y where "y = of_int (round_half_even (x / u)) * u"
  have "y \<le> (x / u + 1) * u"
    unfolding y_def using round_half_even_le [of "x / u"] u0 by (simp add: mult_right_mono)
  also have "\<dots> = x + u" using u0 by (simp add: distrib_right)
  also have "\<dots> \<le> x + max x 1" using u_le by simp
  also have "\<dots> < 2 ^ 1023 + 2 ^ 1023"
  proof -
    have "(1::rat) < 2 ^ 1023" by (rule one_less_power) simp_all
    then have "max x 1 < 2 ^ 1023" using assms by simp
    then show ?thesis using assms by linarith
  qed
  also have "(2::rat) ^ 1023 + 2 ^ 1023 = 2 ^ 1024" by simp
  finally have "\<not> 2 ^ 1024 \<le> y" by simp
  then show ?thesis
    using False unfolding nearest_double_def u_def [symmetric] Let_def y_def [symmetric] by simp
qed

section \<open>Lemmas about the handler\<close>

subsection \<open>The effects\<close>

lemma then_ack_send:
  "then_ack (send_message e cid t m w) =
     (if post_fails e (reply_payload cid t m) then (Inl IOFailure, w)
      else (Inr ack, w\<lparr>outbox := outbox w @ [reply_payload cid t m]\<rparr>))"
  by (simp add: then_ack_def send_message_def Let_def)

lemma add_row_eq:
  "add_row e v d c t w =
     (if append_fails e [strftime (now e), format_2f v, d, c, t] then (Inl IOFailure, w)
      else (Inr (), w\<lparr>ledger := ledger w @ [[strftime (now e), format_2f v, d, c, t]]\<rparr>))"
  by (simp add: add_row_def Let_def)

lemma webhook_text_eq:
  "webhook_text e cid mid txt w =
     (if txt = [] then (Inr ack, w)
      else case parse_expense txt of
        None \<Rightarrow>
          if post_fails e (reply_payload cid reply_not_understood mid) then (Inl IOFailure, w)
          else (Inr ack, w\<lparr>outbox := outbox w @ [reply_payload cid reply_not_understood mid]\<rparr>)
      | Some (v, d, c) \<Rightarrow>
          if append_fails e [strftime (now e), format_2f v, d, c, txt] then (Inl IOFailure, w)
          else if post_fails e (reply_payload cid (reply_recorded v d c) mid)
          then (Inl IOFailure, w\<lparr>ledger := ledger w @ [[strftime (now e), format_2f v, d, c, txt]]\<rparr>)
          else (Inr ack, w\<lparr>ledger := ledger w @ [[strftime (now e), format_2f v, d, c, txt]],
                  outbox := outbox w @ [reply_payload cid (reply_recorded v d c) mid]\<rparr>))"
  by (simp add: webhook_text_def then_ack_send add_row_eq split: option.splits prod.splits)

lemma webhook_audio_eq:
  "webhook_audio e cid mid fid w =
     (case fetch_transcript e fid of
        Inl err \<Rightarrow> (Inl err, w)
      | Inr None \<Rightarrow>
          if post_fails e (reply_payload cid reply_no_audio mid) then (Inl IOFailure, w)
          else (Inr ack, w\<lparr>outbox := outbox w @ [reply_payload cid reply_no_audio mid]\<rparr>)
      | Inr (Some txt) \<Rightarrow>
          if txt = [] then
            if post_fails e (reply_payload cid reply_empty_transcription mid) then (Inl IOFailure, w)
            else (Inr ack, w\<lparr>outbox := outbox w @ [reply_payload cid reply_empty_transcription mid]\<rparr>)
          else case parse_expense txt of
            None \<Rightarrow>
              if post_fails e (reply_payload cid (reply_transcribed_not_understood txt) mid)
              then (Inl IOFailure, w)
              else (Inr ack, w\<lparr>outbox := outbox w
                      @ [reply_payload cid (reply_transcribed_not_understood txt) mid]\<rparr>)
          | Some (v, d, c) \<Rightarrow>
              if append_fails e [strftime (now e), format_2f v, d, c, txt] then (Inl IOFailure, w)
              else if post_fails e (reply_payload cid (reply_transcribed_recorded txt v d c) mid)
              then (Inl IOFailure,
                    w\<lparr>ledger := ledger w @ [[strftime (now e), format_2f v, d, c, txt]]\<rparr>)
              else (Inr ack,
                    w\<lparr>ledger := ledger w @ [[strftime (now e), format_2f v, d, c, txt]],
                      outbox := outbox w
                        @ [reply_payload cid (reply_transcribed_recorded txt v d c) mid]\<rparr>))"
  by (simp add: webhook_audio_def then_ack_send add_row_eq
      split: option.splits prod.splits sum.splits)







subsection \<open>Well-formed updates are classified\<close>

lemma py_get_dict: "is_dict j \<Longrightarrow> \<exists>v. py_get j k = Inr v"
  by (cases j) (auto simp: is_dict_def py_get_def split: option.splits)



lemma classify_update:
  assumes "get_message update = Inr message" "py_truthy update"
  shows "classify (Some update) =
     (if \<not> py_truthy message then Inr NoMessage
      else case get_chat_id message of
        Inl err \<Rightarrow> Inl err
      | Inr cid \<Rightarrow>
          (case py_get message ''message_id'' of
             Inl err \<Rightarrow> Inl err
           | Inr mid \<Rightarrow>
               (case get_file_id message of
                  Inl err \<Rightarrow> Inl err
                | Inr fid \<Rightarrow>
                    if \<not> py_truthy fid
                    then (case get_stripped message ''text'' of
                            Inl err \<Rightarrow> Inl err
                          | Inr txt \<Rightarrow> Inr (TextMessage cid mid txt))
                    else Inr (AudioMessage cid mid fid))))"
  using assms by (simp add: classify_def)



subsection \<open>The text field of a message with a file id\<close>

lemma get_message_truthy:
  assumes "get_message update = Inr message" "py_truthy message"
  shows "py_truthy update"
proof (cases update)
  case (JDict kvs)
  then show ?thesis
    using assms by (cases kvs) (auto simp: get_message_def py_get_def)
qed (use assms in \<open>auto simp: get_message_def py_get_def\<close>)

lemma get_file_id_truthy_message:
  assumes "get_file_id message = Inr fid" "py_truthy fid"
  shows "py_truthy message"
proof (cases message)
  case (JDict kvs)
  then show ?thesis using assms by (cases kvs) auto
qed (use assms in auto)

lemma classify_attachment:
  assumes "get_message update = Inr message" "get_file_id message = Inr fid" "py_truthy fid"
  shows "classify (Some update) =
     (case get_chat_id message of
        Inl err \<Rightarrow> Inl err
      | Inr cid \<Rightarrow>
          (case py_get message ''message_id'' of
             Inl err \<Rightarrow> Inl err
           | Inr mid \<Rightarrow> Inr (AudioMessage cid mid fid)))"
proof -
  have m: "py_truthy message" by (rule get_file_id_truthy_message [OF assms(2,3)])
  have u: "py_truthy update" by (rule get_message_truthy [OF assms(1) m])
  show ?thesis
    using assms m by (simp add: classify_update [OF assms(1) u] split: sum.splits)
qed

lemma agree_off_text:
  assumes "\<forall>k. k \<noteq> ''text'' \<longrightarrow> map_of kvs' k = map_of kvs k"
  shows "get_chat_id (JDict kvs') = get_chat_id (JDict kvs)"
    "py_get (JDict kvs') ''message_id'' = py_get (JDict kvs) ''message_id''"
    "get_file_id (JDict kvs') = get_file_id (JDict kvs)"
proof -
  have "map_of kvs' ''chat'' = map_of kvs ''chat''" "map_of kvs' ''message_id'' = map_of kvs ''message_id''"
    "map_of kvs' ''voice'' = map_of kvs ''voice''" "map_of kvs' ''audio'' = map_of kvs ''audio''"
    using assms by simp_all
  then show "get_chat_id (JDict kvs') = get_chat_id (JDict kvs)"
    "py_get (JDict kvs') ''message_id'' = py_get (JDict kvs) ''message_id''"
    "get_file_id (JDict kvs') = get_file_id (JDict kvs)"
    by (simp_all add: get_chat_id_def py_get_def split: option.splits)
qed

lemma webhook_audio_ledger:
  "ledger (snd (webhook_audio e cid mid fid w)) = ledger w \<or>
   (\<exists>v d c txt. fetch_transcript e fid = Inr (Some txt) \<and> parse_expense txt = Some (v, d, c) \<and>
      ledger (snd (webhook_audio e cid mid fid w))
        = ledger w @ [[strftime (now e), format_2f v, d, c, txt]])"
  by (auto simp: webhook_audio_eq split: sum.splits option.splits)

section \<open>The claims about the parser\<close>


lemma parse_500: "parse_expense ''500 padaria nubank'' = Some (Finite 500, ''padaria'', ''nubank'')"
proof -
  have "parse_expense ''500 padaria nubank''
      = Some (split_tokens 500 [''padaria'', ''nubank''])"
    by (rule parse_expense_eval [of _ "''500 padaria nubank''" 0 3 "''500''"])
      (code_simp, code_simp, code_simp, simp add: br_value_eval, code_simp)
  moreover have "nearest_double 500 = Finite 500"
    using nearest_double_nat [of 500] by simp
  ultimately show ?thesis by (simp add: split_tokens_def)
qed




lemma split_tokens_value: "fst (split_tokens x toks) = nearest_double x"
  by (cases toks; cases "tl toks") (auto simp: split_tokens_def)

text \<open>
  C2. The parser reads the matched substring \<open>m\<close> after deleting every dot and then turning
  every comma into a dot: the value it returns is \<^verbatim>\<open>float\<close> of that string. So when the first
  numeric substring is the US-style \<^verbatim>\<open>32.90\<close>, the value is 3290.
\<close>

theorem parse_expense_dot_is_deleted:
  "first_number (normalise inp) pre m post \<longrightarrow>
     (\<exists>v d c.
        py_float (map (\<lambda>x. if x = CHR '','' then CHR ''.'' else x)
                    (filter (\<lambda>x. x \<noteq> CHR ''.'') m)) = Some v \<and>
        parse_expense inp = Some (v, d, c) \<and>
        (m = ''32.90'' \<longrightarrow> v = Finite 3290))"
proof
  assume f: "first_number (normalise inp) pre m post"
  then have pat: "number_pat m" by (simp add: first_number_def)
  obtain v d c where s: "split_tokens (br_value m) (py_split (pre @ post)) = (v, d, c)"
    by (cases "split_tokens (br_value m) (py_split (pre @ post))") auto
  have v: "v = nearest_double (br_value m)"
    using split_tokens_value [of "br_value m" "py_split (pre @ post)"] s by simp
  have "py_float (map (\<lambda>x. if x = CHR '','' then CHR ''.'' else x)
                    (filter (\<lambda>x. x \<noteq> CHR ''.'') m)) = Some v"
    using py_float_match [OF pat] v by (simp add: py_replace_delete_char py_replace_map_char)
  moreover have "parse_expense inp = Some (v, d, c)"
    using parse_expense_first [OF f] s by simp
  moreover have "v = Finite 3290" if "m = ''32.90''"
  proof -
    have "br_value ''32.90'' = 3290" by (simp add: br_value_eval)
    then show ?thesis using v that nearest_double_nat [of 3290] by simp
  qed
  ultimately show "\<exists>v d c.
        py_float (map (\<lambda>x. if x = CHR '','' then CHR ''.'' else x)
                    (filter (\<lambda>x. x \<noteq> CHR ''.'') m)) = Some v \<and>
        parse_expense inp = Some (v, d, c) \<and>
        (m = ''32.90'' \<longrightarrow> v = Finite 3290)"
    by blast
qed

theorem parse_expense_dot_is_deleted_witness:
  "first_number (normalise ''32.90 mercado inter'') [] ''32.90'' '' mercado inter'' \<and>
   parse_expense ''32.90 mercado inter'' = Some (Finite 3290, ''mercado'', ''inter'')"
proof -
  have f: "first_number (normalise ''32.90 mercado inter'') [] ''32.90'' '' mercado inter''"
    by (rule first_number_eval [of _ "''32.90 mercado inter''" 0 5]; code_simp)
  note ex = parse_expense_dot_is_deleted
    [of "''32.90 mercado inter''" "[]" "''32.90''" "'' mercado inter''", THEN mp, OF f]
  from ex obtain v d c
    where p: "parse_expense ''32.90 mercado inter'' = Some (v, d, c)"
      and q: "''32.90'' = ''32.90'' \<longrightarrow> v = Finite 3290"
    by (elim exE conjE)
  from q have "v = Finite 3290" by simp
  note p this
  moreover have "parse_expense ''32.90 mercado inter''
      = Some (split_tokens (br_value ''32.90'') (py_split ([] @ '' mercado inter'')))"
    by (rule parse_expense_first [OF f])
  moreover have "py_split ([] @ '' mercado inter'') = [''mercado'', ''inter'']" by code_simp
  ultimately have "parse_expense ''32.90 mercado inter'' = Some (Finite 3290, ''mercado'', ''inter'')"
    by (simp add: split_tokens_def)
  with f show ?thesis by simp
qed




lemma parse_no_numbers: "parse_expense ''no numbers here'' = None"
proof -
  have "normalise ''no numbers here'' = ''no numbers here''" by code_simp
  moreover have "re_search_number ''no numbers here'' = None" by code_simp
  ultimately show ?thesis by (simp add: parse_expense_search)
qed

text \<open>
  C6. The parser fails exactly when no substring of the normalised text matches the number
  pattern, which is exactly when the input itself has no such substring; there is no other
  failure (the conversion of a match never raises). \<^verbatim>\<open>parse("no numbers here")\<close> fails.
\<close>

theorem parse_expense_fails_iff_no_number:
  "(parse_expense inp = None \<longleftrightarrow> \<not> contains_number (normalise inp)) \<and>
   (contains_number (normalise inp) \<longleftrightarrow> contains_number inp) \<and>
   parse_expense ''no numbers here'' = None"
  by (simp add: parse_expense_None contains_number_normalise parse_no_numbers)

theorem parse_expense_fails_iff_no_number_witness:
  "parse_expense ''no numbers here'' = None \<and> \<not> contains_number (normalise ''no numbers here'') \<and>
   \<not> contains_number ''no numbers here'' \<and>
   contains_number ''r$ 18 uber pix'' \<and> parse_expense ''r$ 18 uber pix'' \<noteq> None"
proof -
  note a = parse_expense_fails_iff_no_number [of "''no numbers here''"]
  note b = parse_expense_fails_iff_no_number [of "''r$ 18 uber pix''"]
  have c: "contains_number ''r$ 18 uber pix''"
    unfolding contains_number_digit by code_simp
  have n: "parse_expense ''no numbers here'' = None"
    by (rule a [THEN conjunct2, THEN conjunct2])
  have n1: "\<not> contains_number (normalise ''no numbers here'')"
    using a [THEN conjunct1] n by simp
  have n2: "\<not> contains_number ''no numbers here''"
    using a [THEN conjunct2, THEN conjunct1] n1 by simp
  have "contains_number (normalise ''r$ 18 uber pix'')"
    using b [THEN conjunct2, THEN conjunct1] c by simp
  then have "parse_expense ''r$ 18 uber pix'' \<noteq> None"
    using b [THEN conjunct1] by simp
  then show ?thesis using n n1 n2 c by simp
qed

lemma parse_18: "parse_expense ''r$ 18 uber pix'' = Some (Finite 18, ''uber'', ''pix'')"
proof -
  have "parse_expense ''r$ 18 uber pix'' = Some (split_tokens 18 [''uber'', ''pix''])"
    by (rule parse_expense_eval [of _ "''18 uber pix''" 0 2 "''18''"])
      (code_simp, code_simp, code_simp, simp add: br_value_eval, code_simp)
  moreover have "nearest_double 18 = Finite 18"
    using nearest_double_nat [of 18] by simp
  ultimately show ?thesis by (simp add: split_tokens_def)
qed

text \<open>
  C8. The number is searched in the input lower-cased, then with every occurrence of
  \<^verbatim>\<open>r$\<close> and then of \<^verbatim>\<open>reais\<close> removed, then trimmed: the parse is the one of that text (its
  first number and the tokens around it), and it fails when that text has no number.
  \<^verbatim>\<open>parse("r$ 18 uber pix")\<close> is \<open>(18.0, "uber", "pix")\<close>.
\<close>

theorem parse_expense_normalises_first:
  "(first_number (normalise_spec inp) pre m post \<longrightarrow>
      parse_expense inp = Some (split_tokens (br_value m) (py_split (pre @ post)))) \<and>
   (\<not> contains_number (normalise_spec inp) \<longrightarrow> parse_expense inp = None) \<and>
   parse_expense ''r$ 18 uber pix'' = Some (Finite 18, ''uber'', ''pix'')"
  by (simp add: normalise_spec_eq [symmetric] parse_expense_first parse_expense_None parse_18)

theorem parse_expense_normalises_first_witness:
  "normalise_spec ''  R$ 18 Reais Uber PIX '' = ''18  uber pix'' \<and>
   first_number (normalise_spec ''  R$ 18 Reais Uber PIX '') [] ''18'' ''  uber pix'' \<and>
   parse_expense ''  R$ 18 Reais Uber PIX '' = Some (Finite 18, ''uber'', ''pix'') \<and>
   \<not> contains_number (normalise_spec ''Reais e mais reais'') \<and>
   parse_expense ''Reais e mais reais'' = None"
proof -
  let ?inp = "''  R$ 18 Reais Uber PIX ''"
  have n: "normalise_spec ?inp = ''18  uber pix''" by code_simp
  have f: "first_number (normalise_spec ?inp) [] ''18'' ''  uber pix''"
    unfolding normalise_spec_eq [symmetric]
    by (rule first_number_eval [of _ "''18  uber pix''" 0 2]; code_simp)
  have t: "split_tokens (br_value ''18'') (py_split ([] @ ''  uber pix''))
      = (Finite 18, ''uber'', ''pix'')"
  proof -
    have "br_value ''18'' = 18" by (simp add: br_value_eval)
    moreover have "py_split ([] @ ''  uber pix'') = [''uber'', ''pix'']" by code_simp
    ultimately show ?thesis using nearest_double_nat [of 18] by (simp add: split_tokens_def)
  qed
  have c: "\<not> contains_number (normalise_spec ''Reais e mais reais'')"
    unfolding contains_number_digit by code_simp
  from parse_expense_normalises_first [of ?inp "[]" "''18''" "''  uber pix''"] f t
  have "parse_expense ?inp = Some (Finite 18, ''uber'', ''pix'')" by simp
  moreover from parse_expense_normalises_first [of "''Reais e mais reais''"] c
  have "parse_expense ''Reais e mais reais'' = None" by simp
  ultimately show ?thesis using n f c by simp
qed

section \<open>The claims about the handler\<close>

lemma ustr_append: "ustr (a @ b) = ustr a @ ustr b"
  by (simp add: ustr_def)

lemma sublist_usage_not_understood: "sublist usage_example reply_not_understood"
proof -
  have "reply_not_understood = (ustr ''N'' @ [227] @ ustr ''o entendi. '') @ usage_example @ []"
    by (simp add: reply_not_understood_def usage_example_def ustr_def)
  then show ?thesis unfolding sublist_def by blast
qed

lemma sublist_transcribed_not_understood:
  "sublist (ustr t) (reply_transcribed_not_understood t)"
  "sublist usage_example (reply_transcribed_not_understood t)"
proof -
  have "reply_transcribed_not_understood t
      = (ustr ''Transcri'' @ [231, 227] @ ustr ''o: `'') @ ustr t
        @ (ustr ''`'' @ [10] @ ustr ''N'' @ [227]
           @ ustr ''o entendi o formato. Exemplo: `500 padaria nubank`'')"
    by (simp add: reply_transcribed_not_understood_def transcription_line_def)
  then show "sublist (ustr t) (reply_transcribed_not_understood t)"
    unfolding sublist_def by blast
  have "reply_transcribed_not_understood t
      = (transcription_line t @ ustr ''N'' @ [227] @ ustr ''o entendi o formato. '')
        @ usage_example @ []"
    by (simp add: reply_transcribed_not_understood_def usage_example_def ustr_def)
  then show "sublist usage_example (reply_transcribed_not_understood t)"
    unfolding sublist_def by blast
qed

lemma fetch_transcript_calm:
  "fetch_transcript (calm_env t) fid = Inr (Some (py_strip t))"
proof -
  have "get_stripped (JDict [(''text'', JStr t)]) ''text'' = Inr (py_strip t)"
    by (cases t) (simp_all add: get_stripped_def py_get_def py_strip_def)
  then show ?thesis
    by (simp add: fetch_transcript_def calm_env_def py_get_def transcribe_ogg_to_text_def)
qed

lemma calm_env_no_failure: "no_io_failure (calm_env t)"
  unfolding no_io_failure_def fetch_transcript_calm by (simp add: calm_env_def)

lemma strftime_calm: "strftime (now (calm_env t)) = ''2024-05-17 13:45:09 UTC''"
proof -
  have "strftime \<lparr>year = 2024, month = 5, day = 17, hour = 13, minute = 45, second = 9\<rparr>
      = ''2024-05-17 13:45:09 UTC''"
    by code_simp
  then show ?thesis by (simp add: calm_env_def)
qed

lemma classify_text_update:
  "classify (Some (text_update t)) = Inr (TextMessage (JInt 42) (JInt 7) (py_strip t))"
proof -
  have "get_stripped (JDict [(''message_id'', JInt 7), (''chat'', JDict [(''id'', JInt 42)]),
          (''text'', JStr t)]) ''text'' = Inr (py_strip t)"
    by (cases t) (simp_all add: get_stripped_def py_get_def py_strip_def)
  then show ?thesis
    by (simp add: classify_def text_update_def message_update_def get_message_def py_get_def
        get_chat_id_def)
qed

text \<open>
  C3, as the code has it. When the parser fails on a text message, the reply is the fixed
  text \<open>reply_not_understood\<close>, which ends with the usage example: it holds the usage example and not
  the input. When it fails on a transcription, the reply holds the transcription and the
  usage example. In both cases nothing is written to the ledger, and the reply is what the
  handler posts before it acknowledges.
\<close>

theorem parser_failure_reply:
  "(classify body = Inr (TextMessage cid mid t) \<and> t \<noteq> [] \<and> parse_expense t = None \<longrightarrow>
      webhook e body w = then_ack (send_message e cid reply_not_understood mid w) \<and>
      ledger (snd (webhook e body w)) = ledger w \<and>
      (\<not> post_fails e (reply_payload cid reply_not_understood mid) \<longrightarrow>
         webhook e body w
           = (Inr ack, w\<lparr>outbox := outbox w @ [reply_payload cid reply_not_understood mid]\<rparr>))) \<and>
   (classify body = Inr (AudioMessage cid mid fid) \<and> fetch_transcript e fid = Inr (Some t) \<and>
    t \<noteq> [] \<and> parse_expense t = None \<longrightarrow>
      webhook e body w
        = then_ack (send_message e cid (reply_transcribed_not_understood t) mid w) \<and>
      ledger (snd (webhook e body w)) = ledger w \<and>
      (\<not> post_fails e (reply_payload cid (reply_transcribed_not_understood t) mid) \<longrightarrow>
         webhook e body w
           = (Inr ack, w\<lparr>outbox := outbox w
                @ [reply_payload cid (reply_transcribed_not_understood t) mid]\<rparr>))) \<and>
   sublist usage_example reply_not_understood \<and>
   sublist (ustr t) (reply_transcribed_not_understood t) \<and>
   sublist usage_example (reply_transcribed_not_understood t)"
  by (simp add: webhook_def webhook_text_def webhook_audio_def then_ack_send
      sublist_usage_not_understood sublist_transcribed_not_understood)

lemma webhook_no_numbers:
  "webhook (calm_env []) (Some (text_update ''no numbers here'')) empty_world
     = (Inr ack, \<lparr>ledger = [],
          outbox = [reply_payload (JInt 42) reply_not_understood (JInt 7)]\<rparr>)"
proof -
  have s: "py_strip ''no numbers here'' = ''no numbers here''" by code_simp
  show ?thesis
    by (simp add: webhook_def classify_text_update s webhook_text_eq parse_no_numbers
        calm_env_def empty_world_def)
qed

theorem parser_failure_reply_witness:
  "classify (Some (text_update ''no numbers here''))
     = Inr (TextMessage (JInt 42) (JInt 7) ''no numbers here'') \<and>
   parse_expense ''no numbers here'' = None \<and>
   webhook (calm_env []) (Some (text_update ''no numbers here'')) empty_world
     = (Inr ack, empty_world\<lparr>outbox := outbox empty_world
          @ [reply_payload (JInt 42) reply_not_understood (JInt 7)]\<rparr>) \<and>
   classify (Some (message_update [(''voice'', JDict [(''file_id'', JStr ''abc'')])]))
     = Inr (AudioMessage (JInt 42) (JInt 7) (JStr ''abc'')) \<and>
   fetch_transcript (calm_env ''no numbers here'') (JStr ''abc'') = Inr (Some ''no numbers here'') \<and>
   webhook (calm_env ''no numbers here'')
       (Some (message_update [(''voice'', JDict [(''file_id'', JStr ''abc'')])])) empty_world
     = (Inr ack, empty_world\<lparr>outbox := outbox empty_world
          @ [reply_payload (JInt 42) (reply_transcribed_not_understood ''no numbers here'')
               (JInt 7)]\<rparr>)"
proof -
  let ?t = "''no numbers here''"
  let ?v = "Some (message_update [(''voice'', JDict [(''file_id'', JStr ''abc'')])])"
  have s: "py_strip ?t = ?t" by code_simp
  have c1: "classify (Some (text_update ?t)) = Inr (TextMessage (JInt 42) (JInt 7) ?t)"
    by (simp add: classify_text_update s)
  have c2: "classify ?v = Inr (AudioMessage (JInt 42) (JInt 7) (JStr ''abc''))"
    by (simp add: classify_def message_update_def get_message_def py_get_def get_chat_id_def)
  have f: "fetch_transcript (calm_env ?t) (JStr ''abc'') = Inr (Some ?t)"
    by (simp add: fetch_transcript_calm s)
  have p: "\<not> post_fails (calm_env x) y" for x y by (simp add: calm_env_def)
  have h1: "classify (Some (text_update ?t)) = Inr (TextMessage (JInt 42) (JInt 7) ?t) \<and>
      ?t \<noteq> [] \<and> parse_expense ?t = None"
    using c1 parse_no_numbers by simp
  have h2: "classify ?v = Inr (AudioMessage (JInt 42) (JInt 7) (JStr ''abc'')) \<and>
      fetch_transcript (calm_env ?t) (JStr ''abc'') = Inr (Some ?t) \<and>
      ?t \<noteq> [] \<and> parse_expense ?t = None"
    using c2 f parse_no_numbers by simp
  have "webhook (calm_env []) (Some (text_update ?t)) empty_world
     = (Inr ack, empty_world\<lparr>outbox := outbox empty_world
          @ [reply_payload (JInt 42) reply_not_understood (JInt 7)]\<rparr>)"
    by (rule parser_failure_reply [where body = "Some (text_update ?t)" and e = "calm_env []"
          and w = empty_world and cid = "JInt 42" and mid = "JInt 7" and t = ?t,
          THEN conjunct1, THEN mp, OF h1, THEN conjunct2, THEN conjunct2, THEN mp, OF p])
  moreover have "webhook (calm_env ?t) ?v empty_world
     = (Inr ack, empty_world\<lparr>outbox := outbox empty_world
          @ [reply_payload (JInt 42) (reply_transcribed_not_understood ?t) (JInt 7)]\<rparr>)"
    by (rule parser_failure_reply [where body = ?v and e = "calm_env ?t"
          and w = empty_world and cid = "JInt 42" and mid = "JInt 7" and t = ?t
          and fid = "JStr ''abc''",
          THEN conjunct2, THEN conjunct1, THEN mp, OF h2, THEN conjunct2, THEN conjunct2,
          THEN mp, OF p])
  ultimately show ?thesis using c1 c2 f parse_no_numbers by simp
qed

text \<open>
  C3 as stated is false on a text message: the reply to \<^verbatim>\<open>no numbers here\<close>, on which the
  parser fails, is the only message posted and does not include that text.
\<close>

theorem text_failure_reply_omits_input:
  "parse_expense ''no numbers here'' = None \<and>
   webhook (calm_env []) (Some (text_update ''no numbers here'')) empty_world
     = (Inr ack, \<lparr>ledger = [],
          outbox = [reply_payload (JInt 42) reply_not_understood (JInt 7)]\<rparr>) \<and>
   \<not> sublist (ustr ''no numbers here'') reply_not_understood"
proof -
  have "\<not> sublist (ustr ''no numbers here'') reply_not_understood" by code_simp
  then show ?thesis by (simp add: parse_no_numbers webhook_no_numbers)
qed




lemma char_of_48: "char_of (48::nat) = CHR ''0''"
  by code_simp

lemma format_2f_nat: "format_2f (Finite (of_nat n)) = digits_of_nat n @ ''.00''"
proof -
  have "\<bar>(of_nat n :: rat)\<bar> * 100 = of_int (int (n * 100))" by simp
  then have "nat (round_half_even (\<bar>(of_nat n :: rat)\<bar> * 100)) = n * 100"
    by (simp only: round_half_even_of_int nat_int)
  then show ?thesis
    unfolding format_2f_def by (simp add: Let_def char_of_48)
qed

lemma format_500: "format_2f (Finite 500) = ''500.00''"
proof -
  have "digits_of_nat 500 = ''500''" by code_simp
  then show ?thesis using format_2f_nat [of 500] by simp
qed

lemma parse_empty: "parse_expense [] = None"
proof -
  have "normalise [] = []" by code_simp
  moreover have "re_search_number [] = None" by code_simp
  ultimately show ?thesis by (simp add: parse_expense_search)
qed

lemma nat_of_digits_zeros: "nat_of_digits (ds @ replicate n CHR ''0'') = nat_of_digits ds * 10 ^ n"
proof -
  have z: "nat_of_digits (replicate n CHR ''0'') = 0"
  proof (induction n)
    case 0
    show ?case by (simp add: nat_of_digits_def)
  next
    case (Suc n)
    have "nat_of_digits (replicate n CHR ''0'' @ [CHR ''0''])
        = nat_of_digits (replicate n CHR ''0'') * 10 ^ length [CHR ''0''] + nat_of_digits [CHR ''0'']"
      by (rule nat_of_digits_append)
    then show ?case
      using Suc by (simp add: replicate_append_same nat_of_digits_def digit_value_def)
  qed
  show ?thesis by (simp add: nat_of_digits_append z)
qed

lemma huge_digits: "nat_of_digits huge_amount = 10 ^ 309"
proof -
  have "nat_of_digits ([CHR ''1''] @ replicate 309 CHR ''0'') = nat_of_digits [CHR ''1''] * 10 ^ 309"
    by (rule nat_of_digits_zeros)
  moreover have "nat_of_digits [CHR ''1''] = 1" by (simp add: nat_of_digits_def digit_value_def)
  ultimately show ?thesis by (simp only: huge_amount_def append_Cons append_Nil mult_1)
qed

lemma huge_first: "first_number (normalise (huge_amount @ '' a b'')) [] huge_amount '' a b''"
  by (rule first_number_eval [of _ "huge_amount @ '' a b''" 0 310]; code_simp)

lemma huge_isdigit: "list_all py_isdigit huge_amount" by code_simp

lemma huge_pow: "(2::rat) ^ 1024 \<le> 10 ^ 309" by simp

lemma huge_strip: "py_strip (huge_amount @ '' a b'') = huge_amount @ '' a b''" by code_simp

lemma parse_overflow:
  "parse_expense (huge_amount @ '' a b'') = Some (PosInf, ''a'', ''b'')"
proof -
  have "br_value huge_amount = of_nat (nat_of_digits huge_amount)"
    by (rule br_value_no_comma [OF huge_isdigit digits_filter_dot [OF huge_isdigit]])
  then have "br_value huge_amount = 10 ^ 309"
    by (simp only: huge_digits of_nat_power of_nat_numeral)
  then have "nearest_double (br_value huge_amount) = PosInf"
    using huge_pow by (simp only: nearest_double_overflow)
  moreover have "py_split ([] @ '' a b'') = [''a'', ''b'']" by code_simp
  ultimately show ?thesis
    using parse_expense_first [OF huge_first] by (simp add: split_tokens_def)
qed

text \<open>
  C7, as the code has it. \<^verbatim>\<open>add_row\<close> appends exactly one row,
  \<open>[timestamp, formatted value, description, account, original text]\<close>, or raises when the
  sheet does; the timestamp of a clock reading has the shape \<^verbatim>\<open>YYYY-MM-DD HH:MM:SS UTC\<close>;
  the formatted value of a finite float has exactly two decimal places. The handler calls it
  once for each successfully parsed expense, with the text it gave the parser. Every amount
  below \<open>2 ^ 1023\<close> is parsed to a finite float.
\<close>

theorem add_row_writes_one_row:
  "add_row e v desc conta original w =
     (if append_fails e [strftime (now e), format_2f v, desc, conta, original]
      then (Inl IOFailure, w)
      else (Inr (), w\<lparr>ledger := ledger w
              @ [[strftime (now e), format_2f v, desc, conta, original]]\<rparr>)) \<and>
   (valid_datetime (now e) \<longrightarrow> timestamp_format (strftime (now e))) \<and>
   (v = Finite x \<longrightarrow> two_decimal_places (format_2f v)) \<and>
   (classify body = Inr (TextMessage cid mid t) \<and> parse_expense t = Some (v, desc, conta) \<and>
    no_io_failure e \<longrightarrow>
      ledger (snd (webhook e body w))
        = ledger w @ [[strftime (now e), format_2f v, desc, conta, t]]) \<and>
   (classify body = Inr (AudioMessage cid mid fid) \<and> fetch_transcript e fid = Inr (Some t) \<and>
    parse_expense t = Some (v, desc, conta) \<and> no_io_failure e \<longrightarrow>
      ledger (snd (webhook e body w))
        = ledger w @ [[strftime (now e), format_2f v, desc, conta, t]]) \<and>
   (first_number (normalise t) pre m post \<and> br_value m < 2 ^ 1023 \<longrightarrow>
      (\<exists>y d c. parse_expense t = Some (Finite y, d, c)))"
proof (intro conjI impI)
  show "add_row e v desc conta original w =
     (if append_fails e [strftime (now e), format_2f v, desc, conta, original]
      then (Inl IOFailure, w)
      else (Inr (), w\<lparr>ledger := ledger w
              @ [[strftime (now e), format_2f v, desc, conta, original]]\<rparr>))"
    by (rule add_row_eq)
next
  assume "valid_datetime (now e)"
  then show "timestamp_format (strftime (now e))" by (rule strftime_format)
next
  assume "v = Finite x"
  then show "two_decimal_places (format_2f v)" by (simp add: format_2f_two_decimals)
next
  assume a: "classify body = Inr (TextMessage cid mid t) \<and>
    parse_expense t = Some (v, desc, conta) \<and> no_io_failure e"
  then have "t \<noteq> []" using parse_empty by auto
  then show "ledger (snd (webhook e body w))
      = ledger w @ [[strftime (now e), format_2f v, desc, conta, t]]"
    using a by (simp add: webhook_def webhook_text_eq no_io_failure_def)
next
  assume a: "classify body = Inr (AudioMessage cid mid fid) \<and>
    fetch_transcript e fid = Inr (Some t) \<and> parse_expense t = Some (v, desc, conta) \<and>
    no_io_failure e"
  then have "t \<noteq> []" using parse_empty by auto
  then show "ledger (snd (webhook e body w))
      = ledger w @ [[strftime (now e), format_2f v, desc, conta, t]]"
    using a by (simp add: webhook_def webhook_audio_eq no_io_failure_def)
next
  assume a: "first_number (normalise t) pre m post \<and> br_value m < 2 ^ 1023"
  then obtain y where y: "nearest_double (br_value m) = Finite y"
    using nearest_double_finite by blast
  obtain u d c where s: "split_tokens (br_value m) (py_split (pre @ post)) = (u, d, c)"
    by (cases "split_tokens (br_value m) (py_split (pre @ post))") auto
  have "u = Finite y"
    using split_tokens_value [of "br_value m" "py_split (pre @ post)"] s y by simp
  then show "\<exists>y d c. parse_expense t = Some (Finite y, d, c)"
    using a parse_expense_first [of t pre m post] s by simp
qed

theorem add_row_writes_one_row_witness:
  "valid_datetime (now (calm_env [])) \<and>
   timestamp_format ''2024-05-17 13:45:09 UTC'' \<and>
   two_decimal_places ''500.00'' \<and>
   add_row (calm_env []) (Finite 500) ''padaria'' ''nubank'' ''500 padaria nubank'' empty_world
     = (Inr (), \<lparr>ledger = [[''2024-05-17 13:45:09 UTC'', ''500.00'', ''padaria'', ''nubank'',
                             ''500 padaria nubank'']], outbox = []\<rparr>) \<and>
   ledger (snd (webhook (calm_env []) (Some (text_update ''500 padaria nubank'')) empty_world))
     = [[''2024-05-17 13:45:09 UTC'', ''500.00'', ''padaria'', ''nubank'',
         ''500 padaria nubank'']]"
proof -
  let ?e = "calm_env []"
  let ?t = "''500 padaria nubank''"
  note inst = add_row_writes_one_row [where e = ?e and v = "Finite 500" and x = 500
      and desc = "''padaria''" and conta = "''nubank''" and w = empty_world and t = ?t
      and original = ?t and body = "Some (text_update ?t)" and cid = "JInt 42" and mid = "JInt 7"]
  have vd: "valid_datetime (now ?e)" by (simp add: calm_env_def valid_datetime_def)
  note f = format_500
  have s: "py_strip ?t = ?t" by code_simp
  have h: "classify (Some (text_update ?t)) = Inr (TextMessage (JInt 42) (JInt 7) ?t) \<and>
      parse_expense ?t = Some (Finite 500, ''padaria'', ''nubank'') \<and> no_io_failure ?e"
    by (simp add: classify_text_update s parse_500 calm_env_no_failure)
  have "timestamp_format (strftime (now ?e))"
    by (rule inst [THEN conjunct2, THEN conjunct1, THEN mp, OF vd])
  moreover have "two_decimal_places (format_2f (Finite 500))"
    by (rule inst [THEN conjunct2, THEN conjunct2, THEN conjunct1, THEN mp, OF refl])
  moreover have "add_row ?e (Finite 500) ''padaria'' ''nubank'' ?t empty_world
      = (Inr (), empty_world\<lparr>ledger := ledger empty_world
          @ [[strftime (now ?e), format_2f (Finite 500), ''padaria'', ''nubank'', ?t]]\<rparr>)"
    using inst [THEN conjunct1] by (simp add: calm_env_def)
  moreover have "ledger (snd (webhook ?e (Some (text_update ?t)) empty_world))
      = ledger empty_world @ [[strftime (now ?e), format_2f (Finite 500), ''padaria'', ''nubank'', ?t]]"
    by (rule inst [THEN conjunct2, THEN conjunct2, THEN conjunct2, THEN conjunct1, THEN mp, OF h])
  ultimately show ?thesis
    using vd by (simp add: strftime_calm f empty_world_def)
qed

lemma webhook_huge:
  "webhook (calm_env []) (Some (text_update (huge_amount @ '' a b''))) empty_world
     = webhook_text (calm_env []) (JInt 42) (JInt 7) (huge_amount @ '' a b'') empty_world"
  by (simp only: webhook_def classify_text_update huge_strip sum.case update_kind.case)

lemma webhook_text_huge:
  "ledger (snd (webhook_text (calm_env []) (JInt 42) (JInt 7) (huge_amount @ '' a b'')
                  empty_world))
     = [[strftime (now (calm_env [])), format_2f PosInf, ''a'', ''b'', huge_amount @ '' a b'']]"
  unfolding webhook_text_eq parse_overflow by (simp add: calm_env_def empty_world_def)

lemma format_inf: "format_2f PosInf = ''inf''"
  by (simp add: format_2f_def)

text \<open>
  C7 as stated is false for an amount that overflows the float: a text message with the
  amount 1 followed by 309 zeros is parsed to the infinity, and the row the handler writes
  has \<^verbatim>\<open>inf\<close> in the value column, which has no decimal places.
\<close>

theorem overflowing_amount_recorded_as_inf:
  "huge_amount = CHR ''1'' # replicate 309 CHR ''0'' \<and>
   parse_expense (huge_amount @ '' a b'') = Some (PosInf, ''a'', ''b'') \<and>
   ledger (snd (webhook (calm_env []) (Some (text_update (huge_amount @ '' a b'')))
                  empty_world))
     = [[''2024-05-17 13:45:09 UTC'', ''inf'', ''a'', ''b'', huge_amount @ '' a b'']] \<and>
   \<not> two_decimal_places ''inf''"
proof (intro conjI)
  show "huge_amount = CHR ''1'' # replicate 309 CHR ''0''" by (rule huge_amount_def)
  show "parse_expense (huge_amount @ '' a b'') = Some (PosInf, ''a'', ''b'')"
    by (rule parse_overflow)
  show "ledger (snd (webhook (calm_env []) (Some (text_update (huge_amount @ '' a b'')))
                  empty_world))
     = [[''2024-05-17 13:45:09 UTC'', ''inf'', ''a'', ''b'', huge_amount @ '' a b'']]"
    unfolding webhook_huge webhook_text_huge strftime_calm format_inf ..
  show "\<not> two_decimal_places ''inf''" by (rule not_two_decimals_inf)
qed

lemma webhook_text_recorded:
  assumes "fst (webhook_text e cid mid t w) = Inr r"
  shows "recorded w (snd (webhook_text e cid mid t w))
       = (if t = [] then []
          else case parse_expense t of None \<Rightarrow> [] | Some (v, d, c) \<Rightarrow> [[format_2f v, d, c, t]])"
  using assms
  by (auto simp: webhook_text_eq recorded_def split: if_splits option.splits)

text \<open>
  C9. In the embedding \<open>parse_expense\<close> is a function of the text alone, as the source reads
  nothing but its argument. What that means for the program: two invocations of the handler
  on the same text message, in any two worlds and with any two environments (clock, sheet,
  Telegram), that both complete record the same thing, namely nothing when the parser fails
  on the text and otherwise the one triple it returns for it.
\<close>

theorem parse_expense_same_result_twice:
  "classify body = Inr (TextMessage cid mid t) \<and>
   fst (webhook e1 body w1) = Inr r1 \<and> fst (webhook e2 body w2) = Inr r2 \<longrightarrow>
     recorded w1 (snd (webhook e1 body w1)) = recorded w2 (snd (webhook e2 body w2)) \<and>
     recorded w1 (snd (webhook e1 body w1))
       = (if t = [] then []
          else case parse_expense t of
                 None \<Rightarrow> []
               | Some (v, d, c) \<Rightarrow> [[format_2f v, d, c, t]])"
proof
  assume a: "classify body = Inr (TextMessage cid mid t) \<and>
    fst (webhook e1 body w1) = Inr r1 \<and> fst (webhook e2 body w2) = Inr r2"
  then have w: "webhook e1 body w1 = webhook_text e1 cid mid t w1"
    "webhook e2 body w2 = webhook_text e2 cid mid t w2"
    by (simp_all add: webhook_def)
  from a w have "fst (webhook_text e1 cid mid t w1) = Inr r1"
    "fst (webhook_text e2 cid mid t w2) = Inr r2" by simp_all
  from this [THEN webhook_text_recorded]
  show "recorded w1 (snd (webhook e1 body w1)) = recorded w2 (snd (webhook e2 body w2)) \<and>
     recorded w1 (snd (webhook e1 body w1))
       = (if t = [] then []
          else case parse_expense t of
                 None \<Rightarrow> []
               | Some (v, d, c) \<Rightarrow> [[format_2f v, d, c, t]])"
    unfolding w by simp
qed

lemma webhook_500:
  "webhook (calm_env x) (Some (text_update ''500 padaria nubank'')) w
     = (Inr ack,
        w\<lparr>ledger := ledger w @ [[''2024-05-17 13:45:09 UTC'', ''500.00'', ''padaria'', ''nubank'',
                                   ''500 padaria nubank'']],
          outbox := outbox w
            @ [reply_payload (JInt 42) (reply_recorded (Finite 500) ''padaria'' ''nubank'')
                 (JInt 7)]\<rparr>)"
proof -
  have s: "py_strip ''500 padaria nubank'' = ''500 padaria nubank''" by code_simp
  have "webhook (calm_env x) (Some (text_update ''500 padaria nubank'')) w
      = webhook_text (calm_env x) (JInt 42) (JInt 7) ''500 padaria nubank'' w"
    by (simp only: webhook_def classify_text_update s sum.case update_kind.case)
  also have "\<dots> = (Inr ack,
        w\<lparr>ledger := ledger w @ [[strftime (now (calm_env x)), format_2f (Finite 500),
                                   ''padaria'', ''nubank'', ''500 padaria nubank'']],
          outbox := outbox w
            @ [reply_payload (JInt 42) (reply_recorded (Finite 500) ''padaria'' ''nubank'')
                 (JInt 7)]\<rparr>)"
    unfolding webhook_text_eq parse_500 by (simp add: calm_env_def)
  finally show ?thesis unfolding strftime_calm format_500 .
qed

theorem parse_expense_same_result_twice_witness:
  "classify (Some (text_update ''500 padaria nubank''))
     = Inr (TextMessage (JInt 42) (JInt 7) ''500 padaria nubank'') \<and>
   fst (webhook (calm_env []) (Some (text_update ''500 padaria nubank'')) empty_world) = Inr ack \<and>
   fst (webhook (calm_env ''x'') (Some (text_update ''500 padaria nubank''))
          (snd (webhook (calm_env []) (Some (text_update ''500 padaria nubank'')) empty_world)))
     = Inr ack \<and>
   recorded empty_world
       (snd (webhook (calm_env []) (Some (text_update ''500 padaria nubank'')) empty_world))
     = [[''500.00'', ''padaria'', ''nubank'', ''500 padaria nubank'']] \<and>
   recorded (snd (webhook (calm_env []) (Some (text_update ''500 padaria nubank'')) empty_world))
       (snd (webhook (calm_env ''x'') (Some (text_update ''500 padaria nubank''))
              (snd (webhook (calm_env []) (Some (text_update ''500 padaria nubank''))
                      empty_world))))
     = [[''500.00'', ''padaria'', ''nubank'', ''500 padaria nubank'']]"
proof -
  let ?t = "''500 padaria nubank''"
  let ?b = "Some (text_update ?t)"
  define w1 where "w1 = snd (webhook (calm_env []) ?b empty_world)"
  have s: "py_strip ?t = ?t" by code_simp
  have c: "classify ?b = Inr (TextMessage (JInt 42) (JInt 7) ?t)"
    by (simp add: classify_text_update s)
  have r1: "fst (webhook (calm_env []) ?b empty_world) = Inr ack"
    by (simp add: webhook_500)
  have r2: "fst (webhook (calm_env ''x'') ?b w1) = Inr ack"
    by (simp add: webhook_500)
  have h: "classify ?b = Inr (TextMessage (JInt 42) (JInt 7) ?t) \<and>
      fst (webhook (calm_env []) ?b empty_world) = Inr ack \<and>
      fst (webhook (calm_env ''x'') ?b w1) = Inr ack"
    using c r1 r2 by simp
  note inst = parse_expense_same_result_twice [where body = ?b and cid = "JInt 42"
      and mid = "JInt 7" and t = ?t and ?e1.0 = "calm_env []" and ?w1.0 = empty_world
      and ?e2.0 = "calm_env ''x''" and ?w2.0 = w1 and ?r1.0 = ack and ?r2.0 = ack,
      THEN mp, OF h]
  have n: "?t \<noteq> []" by simp
  have "recorded empty_world (snd (webhook (calm_env []) ?b empty_world))
      = [[format_2f (Finite 500), ''padaria'', ''nubank'', ?t]]"
    using inst [THEN conjunct2] n by (simp only: parse_500 if_False option.case prod.case)
  moreover have "recorded w1 (snd (webhook (calm_env ''x'') ?b w1))
      = [[format_2f (Finite 500), ''padaria'', ''nubank'', ?t]]"
    using inst [THEN conjunct1] calculation by simp
  ultimately show ?thesis
    using c r1 r2 unfolding w1_def format_500 by simp
qed


lemma webhook_classify_cong:
  "classify body' = classify body \<Longrightarrow> webhook e body' w = webhook e body w"
  by (simp add: webhook_def)

lemma get_chat_id_dict:
  "get_chat_id (JDict kvs) =
     (case map_of kvs ''chat'' of None \<Rightarrow> Inr JNull | Some chat \<Rightarrow> py_get chat ''id'')"
  by (simp add: get_chat_id_def py_get_def split: option.splits)

lemma get_chat_id_wellformed:
  assumes "case map_of kvs ''chat'' of None \<Rightarrow> True | Some chat \<Rightarrow> is_dict chat"
  shows "\<exists>cid. get_chat_id (JDict kvs) = Inr cid"
  using assms py_get_dict [of _ "''id''"] by (auto simp: get_chat_id_dict split: option.splits)

lemma get_chat_id_malformed:
  assumes "\<not> (case map_of kvs ''chat'' of None \<Rightarrow> True | Some chat \<Rightarrow> is_dict chat)"
  shows "get_chat_id (JDict kvs) = Inl AttributeError"
proof -
  obtain chat where c: "map_of kvs ''chat'' = Some chat" and n: "\<not> is_dict chat"
    using assms by (auto split: option.splits)
  from n have "py_get chat ''id'' = Inl AttributeError"
    by (cases chat) (simp_all add: is_dict_def py_get_def)
  with c show ?thesis by (simp add: get_chat_id_dict)
qed

lemma get_message_id_dict: "\<exists>mid. py_get (JDict kvs) ''message_id'' = Inr mid"
  by (simp add: py_get_def split: option.splits)

text \<open>
  C10, as the code has it. The file id the handler looks at is the one of the \<^verbatim>\<open>voice\<close>
  entry when the message has that key, and otherwise the one of the \<^verbatim>\<open>audio\<close> entry. When
  that file id is truthy:
  \<^item> the handler takes the audio branch, with the chat id, the message id and that file id,
    when the \<^verbatim>\<open>chat\<close> entry of the message is an object or is missing; it raises
    AttributeError while it reads the chat id, before any dispatch and with nothing sent
    or written, when the \<^verbatim>\<open>chat\<close> entry is anything else;
  \<^item> it never takes the text branch;
  \<^item> its whole outcome is the same for every message that differs only in the \<^verbatim>\<open>text\<close>
    field;
  \<^item> the only row it can write holds the transcription and what the parser made of it.
\<close>

theorem attachment_short_circuits_text:
  "get_message update = Inr (JDict kvs) \<and> get_file_id (JDict kvs) = Inr fid \<and> py_truthy fid \<longrightarrow>
     ((case map_of kvs ''chat'' of None \<Rightarrow> True | Some chat \<Rightarrow> is_dict chat) \<longrightarrow>
        (\<exists>cid mid. get_chat_id (JDict kvs) = Inr cid \<and>
           py_get (JDict kvs) ''message_id'' = Inr mid \<and>
           classify (Some update) = Inr (AudioMessage cid mid fid) \<and>
           webhook e (Some update) w = webhook_audio e cid mid fid w)) \<and>
     (\<not> (case map_of kvs ''chat'' of None \<Rightarrow> True | Some chat \<Rightarrow> is_dict chat) \<longrightarrow>
        webhook e (Some update) w = (Inl AttributeError, w)) \<and>
     (\<forall>cid mid t. classify (Some update) \<noteq> Inr (TextMessage cid mid t)) \<and>
     (\<forall>update' kvs'.
        get_message update' = Inr (JDict kvs') \<and>
        (\<forall>k. k \<noteq> ''text'' \<longrightarrow> map_of kvs' k = map_of kvs k) \<longrightarrow>
          webhook e (Some update') w = webhook e (Some update) w) \<and>
     (ledger (snd (webhook e (Some update) w)) = ledger w \<or>
      (\<exists>v d c t. fetch_transcript e fid = Inr (Some t) \<and> parse_expense t = Some (v, d, c) \<and>
         ledger (snd (webhook e (Some update) w))
           = ledger w @ [[strftime (now e), format_2f v, d, c, t]]))"
proof (intro impI conjI allI)
  assume a: "get_message update = Inr (JDict kvs) \<and> get_file_id (JDict kvs) = Inr fid \<and> py_truthy fid"
  then have gm: "get_message update = Inr (JDict kvs)" and gf: "get_file_id (JDict kvs) = Inr fid"
    and tr: "py_truthy fid" by simp_all
  note cl = classify_attachment [OF gm gf tr]
  show "\<exists>cid mid. get_chat_id (JDict kvs) = Inr cid \<and>
           py_get (JDict kvs) ''message_id'' = Inr mid \<and>
           classify (Some update) = Inr (AudioMessage cid mid fid) \<and>
           webhook e (Some update) w = webhook_audio e cid mid fid w"
    if wf: "case map_of kvs ''chat'' of None \<Rightarrow> True | Some chat \<Rightarrow> is_dict chat"
  proof -
    obtain cid where c: "get_chat_id (JDict kvs) = Inr cid"
      using get_chat_id_wellformed [OF wf] by blast
    obtain mid where m: "py_get (JDict kvs) ''message_id'' = Inr mid"
      using get_message_id_dict by blast
    have k: "classify (Some update) = Inr (AudioMessage cid mid fid)"
      unfolding cl by (simp add: c m)
    then have "webhook e (Some update) w = webhook_audio e cid mid fid w"
      by (simp add: webhook_def)
    with c m k show ?thesis by blast
  qed
  show "webhook e (Some update) w = (Inl AttributeError, w)"
    if nwf: "\<not> (case map_of kvs ''chat'' of None \<Rightarrow> True | Some chat \<Rightarrow> is_dict chat)"
  proof -
    have "classify (Some update) = Inl AttributeError"
      unfolding cl by (simp add: get_chat_id_malformed [OF nwf])
    then show ?thesis by (simp add: webhook_def)
  qed
  show "classify (Some update) \<noteq> Inr (TextMessage cid mid t)" for cid mid t
    unfolding cl by (simp split: sum.splits)
  show "webhook e (Some update') w = webhook e (Some update) w"
    if b: "get_message update' = Inr (JDict kvs') \<and>
      (\<forall>k. k \<noteq> ''text'' \<longrightarrow> map_of kvs' k = map_of kvs k)" for update' kvs'
  proof -
    from b have gm': "get_message update' = Inr (JDict kvs')"
      and ag: "\<forall>k. k \<noteq> ''text'' \<longrightarrow> map_of kvs' k = map_of kvs k" by simp_all
    note eq = agree_off_text [OF ag]
    have gf': "get_file_id (JDict kvs') = Inr fid" using gf eq(3) by simp
    have "classify (Some update') = classify (Some update)"
      unfolding cl classify_attachment [OF gm' gf' tr] eq(1,2) ..
    then show ?thesis by (rule webhook_classify_cong)
  qed
  show "ledger (snd (webhook e (Some update) w)) = ledger w \<or>
      (\<exists>v d c t. fetch_transcript e fid = Inr (Some t) \<and> parse_expense t = Some (v, d, c) \<and>
         ledger (snd (webhook e (Some update) w))
           = ledger w @ [[strftime (now e), format_2f v, d, c, t]])"
  proof (cases "classify (Some update)")
    case (Inl err)
    then show ?thesis by (simp add: webhook_def)
  next
    case (Inr k)
    then obtain cid mid where "k = AudioMessage cid mid fid"
      unfolding cl by (auto split: sum.splits)
    then have "webhook e (Some update) w = webhook_audio e cid mid fid w"
      using Inr by (simp add: webhook_def)
    then show ?thesis using webhook_audio_ledger [of e cid mid fid w] by simp
  qed
qed

lemma parse_5: "parse_expense ''5 a b'' = Some (Finite 5, ''a'', ''b'')"
proof -
  have "parse_expense ''5 a b'' = Some (split_tokens 5 [''a'', ''b''])"
    by (rule parse_expense_eval [of _ "''5 a b''" 0 1 "''5''"])
      (code_simp, code_simp, code_simp, simp add: br_value_eval, code_simp)
  moreover have "nearest_double 5 = Finite 5"
    using nearest_double_nat [of 5] by simp
  ultimately show ?thesis by (simp add: split_tokens_def)
qed

lemma format_5: "format_2f (Finite 5) = ''5.00''"
proof -
  have "digits_of_nat 5 = ''5''" by code_simp
  then show ?thesis using format_2f_nat [of 5] by simp
qed

lemma strip_5: "py_strip ''5 a b'' = ''5 a b''"
  by code_simp

lemma webhook_audio_calm:
  "webhook_audio (calm_env ''500 padaria nubank'') (JInt 42) (JInt 7) (JStr ''abc'') empty_world
   = (Inr ack,
      \<lparr>ledger = [[''2024-05-17 13:45:09 UTC'', ''500.00'', ''padaria'', ''nubank'',
                   ''500 padaria nubank'']],
        outbox = [reply_payload (JInt 42)
                    (reply_transcribed_recorded ''500 padaria nubank'' (Finite 500) ''padaria''
                       ''nubank'') (JInt 7)]\<rparr>)"
proof -
  let ?e = "calm_env ''500 padaria nubank''"
  have s: "py_strip ''500 padaria nubank'' = ''500 padaria nubank''" by code_simp
  have "webhook_audio ?e (JInt 42) (JInt 7) (JStr ''abc'') empty_world = (Inr ack,
      \<lparr>ledger = [[strftime (now ?e), format_2f (Finite 500), ''padaria'', ''nubank'',
                   ''500 padaria nubank'']],
        outbox = [reply_payload (JInt 42)
                    (reply_transcribed_recorded ''500 padaria nubank'' (Finite 500) ''padaria''
                       ''nubank'') (JInt 7)]\<rparr>)"
    by (simp add: webhook_audio_eq fetch_transcript_calm s parse_500 empty_world_def)
      (simp add: calm_env_def)
  then show ?thesis unfolding strftime_calm format_500 .
qed

theorem attachment_short_circuits_text_witness:
  "get_message (message_update [(''voice'', JDict [(''file_id'', JStr ''abc'')]),
                                (''text'', JStr ''5 a b'')])
     = Inr (JDict [(''message_id'', JInt 7), (''chat'', JDict [(''id'', JInt 42)]),
                   (''voice'', JDict [(''file_id'', JStr ''abc'')]), (''text'', JStr ''5 a b'')]) \<and>
   get_file_id (JDict [(''message_id'', JInt 7), (''chat'', JDict [(''id'', JInt 42)]),
                   (''voice'', JDict [(''file_id'', JStr ''abc'')]), (''text'', JStr ''5 a b'')])
     = Inr (JStr ''abc'') \<and>
   webhook (calm_env ''500 padaria nubank'')
       (Some (message_update [(''voice'', JDict [(''file_id'', JStr ''abc'')]),
                              (''text'', JStr ''5 a b'')])) empty_world
     = webhook_audio (calm_env ''500 padaria nubank'') (JInt 42) (JInt 7) (JStr ''abc'')
         empty_world \<and>
   webhook (calm_env ''500 padaria nubank'')
     (Some (message_update [(''voice'', JDict [(''file_id'', JStr ''abc'')])])) empty_world
   = webhook (calm_env ''500 padaria nubank'')
       (Some (message_update [(''voice'', JDict [(''file_id'', JStr ''abc'')]),
                              (''text'', JStr ''5 a b'')])) empty_world \<and>
   ledger (snd (webhook (calm_env ''500 padaria nubank'')
       (Some (message_update [(''voice'', JDict [(''file_id'', JStr ''abc'')]),
                              (''text'', JStr ''5 a b'')])) empty_world))
     = [[''2024-05-17 13:45:09 UTC'', ''500.00'', ''padaria'', ''nubank'',
         ''500 padaria nubank'']] \<and>
   get_message (JDict [(''message'', JDict [(''chat'', JInt 5),
                          (''voice'', JDict [(''file_id'', JStr ''x'')]),
                          (''text'', JStr ''5 a b'')])])
     = Inr (JDict [(''chat'', JInt 5), (''voice'', JDict [(''file_id'', JStr ''x'')]),
                   (''text'', JStr ''5 a b'')]) \<and>
   get_file_id (JDict [(''chat'', JInt 5), (''voice'', JDict [(''file_id'', JStr ''x'')]),
                   (''text'', JStr ''5 a b'')])
     = Inr (JStr ''x'') \<and>
   webhook (calm_env ''500 padaria nubank'')
       (Some (JDict [(''message'', JDict [(''chat'', JInt 5),
                        (''voice'', JDict [(''file_id'', JStr ''x'')]),
                        (''text'', JStr ''5 a b'')])])) empty_world
     = (Inl AttributeError, empty_world)"
proof -
  let ?e = "calm_env ''500 padaria nubank''"
  let ?kvs = "[(''message_id'', JInt 7), (''chat'', JDict [(''id'', JInt 42)]),
               (''voice'', JDict [(''file_id'', JStr ''abc'')]), (''text'', JStr ''5 a b'')]"
  let ?kvs' = "[(''message_id'', JInt 7), (''chat'', JDict [(''id'', JInt 42)]),
               (''voice'', JDict [(''file_id'', JStr ''abc'')])]"
  let ?u = "message_update [(''voice'', JDict [(''file_id'', JStr ''abc'')]), (''text'', JStr ''5 a b'')]"
  let ?u' = "message_update [(''voice'', JDict [(''file_id'', JStr ''abc'')])]"
  let ?bad = "[(''chat'', JInt 5), (''voice'', JDict [(''file_id'', JStr ''x'')]),
               (''text'', JStr ''5 a b'')]"
  let ?b = "JDict [(''message'', JDict ?bad)]"
  have gm: "get_message ?u = Inr (JDict ?kvs)"
    by (simp add: message_update_def get_message_def py_get_def)
  have gm': "get_message ?u' = Inr (JDict ?kvs')"
    by (simp add: message_update_def get_message_def py_get_def)
  have gf: "get_file_id (JDict ?kvs) = Inr (JStr ''abc'')"
    by (simp add: py_get_def)
  have h: "get_message ?u = Inr (JDict ?kvs) \<and> get_file_id (JDict ?kvs) = Inr (JStr ''abc'') \<and>
      py_truthy (JStr ''abc'')"
    using gm gf by simp
  have wf: "case map_of ?kvs ''chat'' of None \<Rightarrow> True | Some chat \<Rightarrow> is_dict chat"
    by (simp add: is_dict_def)
  have ci: "get_chat_id (JDict ?kvs) = Inr (JInt 42)"
    by (simp add: get_chat_id_def py_get_def)
  have mi: "py_get (JDict ?kvs) ''message_id'' = Inr (JInt 7)"
    by (simp add: py_get_def)
  have ag: "get_message ?u' = Inr (JDict ?kvs') \<and>
      (\<forall>k. k \<noteq> ''text'' \<longrightarrow> map_of ?kvs' k = map_of ?kvs k)"
    using gm' by simp
  note inst = attachment_short_circuits_text [where update = ?u and kvs = ?kvs
      and fid = "JStr ''abc''" and e = ?e and w = empty_world, THEN mp, OF h]
  obtain cid mid where c: "get_chat_id (JDict ?kvs) = Inr cid"
    and m: "py_get (JDict ?kvs) ''message_id'' = Inr mid"
    and a: "webhook ?e (Some ?u) empty_world = webhook_audio ?e cid mid (JStr ''abc'') empty_world"
    using inst [THEN conjunct1, THEN mp, OF wf] by (elim exE conjE)
  have "cid = JInt 42" using c unfolding ci by simp
  moreover have "mid = JInt 7" using m unfolding mi by simp
  ultimately have audio: "webhook ?e (Some ?u) empty_world
      = webhook_audio ?e (JInt 42) (JInt 7) (JStr ''abc'') empty_world"
    using a by simp
  have same: "webhook ?e (Some ?u') empty_world = webhook ?e (Some ?u) empty_world"
    by (rule inst [THEN conjunct2, THEN conjunct2, THEN conjunct2, THEN conjunct1,
          THEN spec, THEN spec, THEN mp, OF ag])
  have row: "ledger (snd (webhook ?e (Some ?u) empty_world))
      = [[''2024-05-17 13:45:09 UTC'', ''500.00'', ''padaria'', ''nubank'', ''500 padaria nubank'']]"
    unfolding audio webhook_audio_calm by simp
  have bm: "get_message ?b = Inr (JDict ?bad)"
    by (simp add: get_message_def py_get_def)
  have bf: "get_file_id (JDict ?bad) = Inr (JStr ''x'')"
    by (simp add: py_get_def)
  have bh: "get_message ?b = Inr (JDict ?bad) \<and> get_file_id (JDict ?bad) = Inr (JStr ''x'') \<and>
      py_truthy (JStr ''x'')"
    using bm bf by simp
  have nwf: "\<not> (case map_of ?bad ''chat'' of None \<Rightarrow> True | Some chat \<Rightarrow> is_dict chat)"
    by (simp add: is_dict_def)
  have raised: "webhook ?e (Some ?b) empty_world = (Inl AttributeError, empty_world)"
    by (rule attachment_short_circuits_text [where update = ?b and kvs = ?bad
          and fid = "JStr ''x''" and e = ?e and w = empty_world, THEN mp, OF bh,
          THEN conjunct2, THEN conjunct1, THEN mp, OF nwf])
  show ?thesis
    by (intro conjI) (rule gm gf audio same row bm bf raised)+
qed

text \<open>
  C10 as stated is false for a message with a \<^verbatim>\<open>voice\<close> entry without a file id, an
  \<^verbatim>\<open>audio\<close> entry with one and a text: it carries an audio attachment with a file id, and
  the handler parses and records the text.
\<close>

theorem audio_with_file_id_text_recorded:
  "carries_attachment
     (JDict [(''message_id'', JInt 7), (''chat'', JDict [(''id'', JInt 42)]),
             (''voice'', JDict []), (''audio'', JDict [(''file_id'', JStr ''abc'')]),
             (''text'', JStr ''5 a b'')]) \<and>
   get_message (message_update [(''voice'', JDict []),
                                (''audio'', JDict [(''file_id'', JStr ''abc'')]),
                                (''text'', JStr ''5 a b'')])
     = Inr (JDict [(''message_id'', JInt 7), (''chat'', JDict [(''id'', JInt 42)]),
             (''voice'', JDict []), (''audio'', JDict [(''file_id'', JStr ''abc'')]),
             (''text'', JStr ''5 a b'')]) \<and>
   webhook (calm_env ''500 padaria nubank'')
     (Some (message_update [(''voice'', JDict []),
                            (''audio'', JDict [(''file_id'', JStr ''abc'')]),
                            (''text'', JStr ''5 a b'')])) empty_world
   = (Inr ack,
      \<lparr>ledger = [[''2024-05-17 13:45:09 UTC'', ''5.00'', ''a'', ''b'', ''5 a b'']],
        outbox = [reply_payload (JInt 42) (reply_recorded (Finite 5) ''a'' ''b'') (JInt 7)]\<rparr>)"
proof -
  let ?e = "calm_env ''500 padaria nubank''"
  let ?u = "message_update [(''voice'', JDict []),
                            (''audio'', JDict [(''file_id'', JStr ''abc'')]),
                            (''text'', JStr ''5 a b'')]"
  have ca: "carries_attachment
     (JDict [(''message_id'', JInt 7), (''chat'', JDict [(''id'', JInt 42)]),
             (''voice'', JDict []), (''audio'', JDict [(''file_id'', JStr ''abc'')]),
             (''text'', JStr ''5 a b'')])"
    by (simp add: carries_attachment_def has_file_id_def py_get_def)
  have gm: "get_message ?u
     = Inr (JDict [(''message_id'', JInt 7), (''chat'', JDict [(''id'', JInt 42)]),
             (''voice'', JDict []), (''audio'', JDict [(''file_id'', JStr ''abc'')]),
             (''text'', JStr ''5 a b'')])"
    by (simp add: message_update_def get_message_def py_get_def)
  have c: "classify (Some ?u) = Inr (TextMessage (JInt 42) (JInt 7) ''5 a b'')"
    by (simp add: classify_def message_update_def get_message_def py_get_def get_chat_id_def
        get_stripped_def strip_5)
  have "webhook ?e (Some ?u) empty_world = webhook_text ?e (JInt 42) (JInt 7) ''5 a b'' empty_world"
    by (simp only: webhook_def c sum.case update_kind.case)
  also have "\<dots> = (Inr ack,
      \<lparr>ledger = [[strftime (now ?e), format_2f (Finite 5), ''a'', ''b'', ''5 a b'']],
        outbox = [reply_payload (JInt 42) (reply_recorded (Finite 5) ''a'' ''b'') (JInt 7)]\<rparr>)"
    unfolding webhook_text_eq parse_5 by (simp add: calm_env_def empty_world_def)
  finally have "webhook ?e (Some ?u) empty_world = (Inr ack,
      \<lparr>ledger = [[''2024-05-17 13:45:09 UTC'', ''5.00'', ''a'', ''b'', ''5 a b'']],
        outbox = [reply_payload (JInt 42) (reply_recorded (Finite 5) ''a'' ''b'') (JInt 7)]\<rparr>)"
    unfolding strftime_calm format_5 .
  with ca gm show ?thesis by (intro conjI)
qed

end
